theory Spec2Isabelle
  imports Complex_Main
begin

section \<open>Numbers of the host language\<close>

text \<open>
  The program is TypeScript: every number is an IEEE double. The gesture handlers divide
  by a reference value that starts at zero, so the special values matter and are modelled:
  a number is a finite real, one of the two infinities, or NaN. In the gesture handlers
  the rounding of finite results is not modelled (finite arithmetic is exact real
  arithmetic), and zero carries no sign: the only divisor there comes from
  \<open>Math.hypot\<close>, which never returns the negative zero. The computation of the canvas
  size in \<open>compressImage\<close> ends in \<open>Math.round\<close>, where the last bit of a product
  decides the pixel count; there the doubles are modelled bit for bit, see below.
\<close>

datatype num = Fin real | PInf | NInf | NaN

text \<open>\<open>x / y\<close> on two finite numbers.\<close>

definition js_div :: "real \<Rightarrow> real \<Rightarrow> num" where
  "js_div x y =
     (if y \<noteq> 0 then Fin (x / y)
      else if x = 0 then NaN
      else if 0 < x then PInf else NInf)"

fun js_mul :: "num \<Rightarrow> num \<Rightarrow> num" where
  "js_mul NaN y = NaN"
| "js_mul x NaN = NaN"
| "js_mul (Fin a) (Fin b) = Fin (a * b)"
| "js_mul (Fin a) PInf = (if a = 0 then NaN else if 0 < a then PInf else NInf)"
| "js_mul (Fin a) NInf = (if a = 0 then NaN else if 0 < a then NInf else PInf)"
| "js_mul PInf (Fin b) = (if b = 0 then NaN else if 0 < b then PInf else NInf)"
| "js_mul NInf (Fin b) = (if b = 0 then NaN else if 0 < b then NInf else PInf)"
| "js_mul PInf PInf = PInf"
| "js_mul PInf NInf = NInf"
| "js_mul NInf PInf = NInf"
| "js_mul NInf NInf = PInf"

text \<open>\<open>Math.max\<close> and \<open>Math.min\<close> of two arguments: NaN if either argument is NaN.\<close>

fun Math_max :: "num \<Rightarrow> num \<Rightarrow> num" where
  "Math_max NaN y = NaN"
| "Math_max x NaN = NaN"
| "Math_max PInf y = PInf"
| "Math_max x PInf = PInf"
| "Math_max NInf y = y"
| "Math_max x NInf = x"
| "Math_max (Fin a) (Fin b) = Fin (max a b)"

fun Math_min :: "num \<Rightarrow> num \<Rightarrow> num" where
  "Math_min NaN y = NaN"
| "Math_min x NaN = NaN"
| "Math_min NInf y = NInf"
| "Math_min x NInf = NInf"
| "Math_min PInf y = y"
| "Math_min x PInf = x"
| "Math_min (Fin a) (Fin b) = Fin (min a b)"

text \<open>The comparisons \<open><\<close>, \<open>>\<close> and \<open><=\<close>: each is false when an operand is NaN.\<close>

fun js_lt :: "num \<Rightarrow> num \<Rightarrow> bool" where
  "js_lt NaN y = False"
| "js_lt x NaN = False"
| "js_lt (Fin a) (Fin b) = (a < b)"
| "js_lt PInf y = False"
| "js_lt x NInf = False"
| "js_lt NInf y = True"
| "js_lt x PInf = True"

definition js_gt :: "num \<Rightarrow> num \<Rightarrow> bool" where
  "js_gt x y = js_lt y x"

definition js_le :: "num \<Rightarrow> num \<Rightarrow> bool" where
  "js_le x y = (x \<noteq> NaN \<and> y \<noteq> NaN \<and> \<not> js_lt y x)"

definition Math_hypot :: "real \<Rightarrow> real \<Rightarrow> real" where
  "Math_hypot dx dy = sqrt (dx * dx + dy * dy)"

text \<open>\<open>Math.round\<close>: the nearest integer, a tie going up.\<close>

definition Math_round :: "real \<Rightarrow> int" where
  "Math_round x = \<lfloor>x + 1 / 2\<rfloor>"

subsection \<open>Doubles, bit for bit\<close>

text \<open>
  A positive double is \<open>m * 2 ^ e\<close> with a mantissa \<open>m\<close> of at most 53 bits; it is kept
  as the pair \<open>(m, e)\<close>, and \<open>dval\<close> is its value. An arithmetic operation returns the
  double nearest to the exact result, a tie going to the even mantissa. The exponent is
  not bounded here: the operands below are pixel counts and the constant 1200, far from
  overflow and from the subnormal numbers.
\<close>

text \<open>The number of binary digits of \<open>n\<close>.\<close>

fun bits :: "nat \<Rightarrow> nat" where
  "bits n = (if n = 0 then 0 else Suc (bits (n div 2)))"

declare bits.simps [simp del]

text \<open>The integer nearest to \<open>n / d\<close>, a tie going to the even one.\<close>

definition round_even :: "nat \<Rightarrow> nat \<Rightarrow> nat" where
  "round_even n d =
     (let q = n div d; r = n mod d
      in if 2 * r < d then q else if d < 2 * r then q + 1 else if even q then q else q + 1)"

text \<open>Whether \<open>p / q < 2 ^ d\<close>, for an integer \<open>d\<close> of either sign.\<close>

definition below_pow2 :: "nat \<Rightarrow> nat \<Rightarrow> int \<Rightarrow> bool" where
  "below_pow2 p q d = (if 0 \<le> d then p < q * 2 ^ nat d else p * 2 ^ nat (- d) < q)"

text \<open>
  The double nearest to \<open>(p / q) * 2 ^ e\<close>, for \<open>q > 0\<close>. The quotient \<open>p / q\<close> lies
  between \<open>2 ^ (d - 1)\<close> and \<open>2 ^ (d + 1)\<close> for the difference \<open>d\<close> of the bit counts;
  \<open>k\<close> is the exponent that puts \<open>p / q / 2 ^ k\<close> between \<open>2 ^ 52\<close> and \<open>2 ^ 53\<close>, and
  the mantissa is that number rounded.
\<close>

definition nearest_double :: "nat \<Rightarrow> nat \<Rightarrow> int \<Rightarrow> nat \<times> int" where
  "nearest_double p q e =
     (if p = 0 then (0, 0)
      else
        (let d = int (bits p) - int (bits q);
             k = (if below_pow2 p q d then d - 53 else d - 52)
         in (if 0 \<le> k then round_even p (q * 2 ^ nat k) else round_even (p * 2 ^ nat (- k)) q,
             k + e)))"

definition dval :: "nat \<times> int \<Rightarrow> real" where
  "dval x = real (fst x) * 2 powi (snd x)"

text \<open>
  \<open>p / q\<close> for two integers below \<open>2 ^ 53\<close> (each is a double as it is), and \<open>a * r\<close>
  for such an integer and a double.
\<close>

definition dbl_div :: "nat \<Rightarrow> nat \<Rightarrow> nat \<times> int" where
  "dbl_div p q = nearest_double p q 0"

definition dbl_mul :: "nat \<Rightarrow> nat \<times> int \<Rightarrow> nat \<times> int" where
  "dbl_mul a r = nearest_double (a * fst r) 1 (snd r)"

section \<open>The gesture handlers of \<open>App\<close>\<close>

text \<open>
  The zoom state of the component (\<open>useState\<close>) and its references (\<open>useRef\<close>).
  Touch coordinates are finite, so the positions and the pinch distance are reals; the
  scale is the result of a division and is a \<open>num\<close>. Each handler is a function from
  the state the component was last rendered with to the state after the handler.
\<close>

record Touch =
  clientX :: real
  clientY :: real

record zoom_state =
  scale :: num
  position :: "real \<times> real"
  lastTapRef :: int
  pinchStartDistRef :: real
  pinchStartScaleRef :: num
  panStartRef :: "real \<times> real"
  posStartRef :: "real \<times> real"
  isPanningRef :: bool

definition zoom_init :: zoom_state where
  "zoom_init =
     \<lparr>scale = Fin 1, position = (0, 0), lastTapRef = 0, pinchStartDistRef = 0,
      pinchStartScaleRef = Fin 1, panStartRef = (0, 0), posStartRef = (0, 0),
      isPanningRef = False\<rparr>"

definition resetZoom :: "zoom_state \<Rightarrow> zoom_state" where
  "resetZoom s = s\<lparr>scale := Fin 1, position := (0, 0)\<rparr>"

definition DOUBLE_TAP_DELAY :: int where
  "DOUBLE_TAP_DELAY = 300"

text \<open>\<open>handleDoubleTap\<close>; \<open>now\<close> is the value of \<open>Date.now()\<close>, in milliseconds.\<close>

definition handleDoubleTap :: "int \<Rightarrow> zoom_state \<Rightarrow> zoom_state" where
  "handleDoubleTap now s =
     (let s' =
        (if now - lastTapRef s < DOUBLE_TAP_DELAY then
           (if js_gt (scale s) (Fin 1) then resetZoom s
            else s\<lparr>scale := Fin (5 / 2), position := (0, 0)\<rparr>)
         else s)
      in s'\<lparr>lastTapRef := now\<rparr>)"

text \<open>The handlers take \<open>e.touches\<close>, the contact points of the event.\<close>

fun handleTouchStart :: "Touch list \<Rightarrow> zoom_state \<Rightarrow> zoom_state" where
  "handleTouchStart [t0, t1] s =
     (let dx = clientX t0 - clientX t1;
          dy = clientY t0 - clientY t1
      in s\<lparr>pinchStartDistRef := Math_hypot dx dy, pinchStartScaleRef := scale s\<rparr>)"
| "handleTouchStart [t0] s =
     (if js_gt (scale s) (Fin 1) then
        s\<lparr>isPanningRef := True, panStartRef := (clientX t0, clientY t0),
          posStartRef := position s\<rparr>
      else s)"
| "handleTouchStart ts s = s"

fun handleTouchMove :: "Touch list \<Rightarrow> zoom_state \<Rightarrow> zoom_state" where
  "handleTouchMove [t0, t1] s =
     (let dx = clientX t0 - clientX t1;
          dy = clientY t0 - clientY t1;
          dist = Math_hypot dx dy;
          newScale =
            Math_min (Fin 5)
              (Math_max (Fin 1) (js_mul (pinchStartScaleRef s) (js_div dist (pinchStartDistRef s))))
      in if js_le newScale (Fin 1) then s\<lparr>scale := newScale, position := (0, 0)\<rparr>
         else s\<lparr>scale := newScale\<rparr>)"
| "handleTouchMove [t0] s =
     (if isPanningRef s \<and> js_gt (scale s) (Fin 1) then
        (let dx = clientX t0 - fst (panStartRef s);
             dy = clientY t0 - snd (panStartRef s)
         in s\<lparr>position := (fst (posStartRef s) + dx, snd (posStartRef s) + dy)\<rparr>)
      else s)"
| "handleTouchMove ts s = s"

definition handleTouchEnd :: "zoom_state \<Rightarrow> zoom_state" where
  "handleTouchEnd s =
     (let s' = s\<lparr>isPanningRef := False\<rparr>
      in if js_le (scale s) (Fin 1) then resetZoom s' else s')"

text \<open>A run of touch-move events, with the state after each event.\<close>

fun moves :: "Touch list list \<Rightarrow> zoom_state \<Rightarrow> zoom_state list" where
  "moves [] s = []"
| "moves (e # es) s = handleTouchMove e s # moves es (handleTouchMove e s)"

section \<open>The image library\<close>

text \<open>
  \<open>ImageRecord\<close> is the row of the \<open>images\<close> table; its field \<open>id\<close> is named
  \<open>image_id\<close> here, and the field \<open>id\<close> of \<open>CategoryData\<close> is \<open>cat_id\<close>.
\<close>

record ImageRecord =
  image_id :: string
  category :: string
  storage_path :: string
  url :: string
  created_at :: string

text \<open>
  A \<open>File\<close> as far as the program looks at it: its declared media type, and what the
  browser's \<open>Image\<close> element reports for its content: the pixel size when \<open>onload\<close>
  fires, \<open>None\<close> when \<open>onerror\<close> fires.
\<close>

record File =
  file_type :: string
  decoded :: "(nat \<times> nat) option"

text \<open>The blob that \<open>canvas.toBlob\<close> hands over: the canvas size, the format, the quality.\<close>

record Blob =
  blob_width :: nat
  blob_height :: nat
  blob_type :: string
  blob_quality :: real

text \<open>
  A thrown value is an instance of \<open>Error\<close> with its message, or something else
  (the handlers test \<open>err instanceof Error\<close>).
\<close>

datatype thrown = JsError string | NotAnError

definition err_message :: "thrown \<Rightarrow> string \<Rightarrow> string" where
  "err_message err dflt = (case err of JsError m \<Rightarrow> m | NotAnError \<Rightarrow> dflt)"

text \<open>The requests the program sends to the storage bucket and to the \<open>images\<close> table.\<close>

datatype call =
    StorageUpload string Blob
  | StorageGetPublicUrl string
  | ImagesInsert string string string
  | StorageRemove "string list"
  | ImagesDelete string
  | ImagesSelect string

text \<open>
  The collaborators. What a remote call answers is not decided by the program; each
  answer is a function of the requests sent so far and of the request itself, so the same
  request may succeed at one time and fail at another. \<open>toBlob\<close> says whether the
  browser encodes a canvas of the given size; \<open>randomUUID\<close> gives the n-th identifier
  drawn.
\<close>

record env =
  storage_upload :: "call list \<Rightarrow> string \<Rightarrow> Blob \<Rightarrow> thrown option"
  getPublicUrl :: "string \<Rightarrow> string"
  images_insert :: "call list \<Rightarrow> string \<Rightarrow> string \<Rightarrow> string \<Rightarrow> thrown + ImageRecord"
  storage_remove :: "call list \<Rightarrow> string list \<Rightarrow> thrown option"
  images_delete :: "call list \<Rightarrow> string \<Rightarrow> thrown option"
  images_select :: "call list \<Rightarrow> string \<Rightarrow> thrown + ImageRecord list"
  toBlob :: "nat \<Rightarrow> nat \<Rightarrow> bool"
  randomUUID :: "nat \<Rightarrow> string"

record CategoryData =
  cat_id :: string
  name :: string
  icon :: string
  color :: string
  gradient :: string
  images :: "ImageRecord list"

text \<open>
  The state of the component that the image handlers read and write, with two
  observation fields: \<open>calls\<close>, the requests sent so far, in order, and \<open>uuids\<close>, the
  number of identifiers drawn. A handler runs from its call to its end without another
  handler in between.
\<close>

record app_state =
  categories :: "CategoryData list"
  activeCategory :: "string option"
  isLoading :: bool
  isUploading :: bool
  error :: "string option"
  calls :: "call list"
  uuids :: nat

text \<open>The icons are the UTF-8 bytes of the source's emoji.\<close>

definition CATEGORIES :: "CategoryData list" where
  "CATEGORIES =
     [\<lparr>cat_id = ''campo'', name = ''Servicio del Campo'',
       icon = [CHR 0xF0, CHR 0x9F, CHR 0x8C, CHR 0xBE], color = ''#00b894'',
       gradient = ''linear-gradient(135deg, #00b894, #00cec9)'', images = []\<rparr>,
      \<lparr>cat_id = ''anuncios'', name = ''Anuncios del Mes'',
       icon = [CHR 0xF0, CHR 0x9F, CHR 0x93, CHR 0xA2], color = ''#e17055'',
       gradient = ''linear-gradient(135deg, #e17055, #fdcb6e)'', images = []\<rparr>,
      \<lparr>cat_id = ''reuniones'', name = ''Reuniones'',
       icon = [CHR 0xF0, CHR 0x9F, CHR 0xA4, CHR 0x9D], color = ''#6c5ce7'',
       gradient = ''linear-gradient(135deg, #6c5ce7, #a29bfe)'', images = []\<rparr>,
      \<lparr>cat_id = ''limpieza'', name = ''Limpieza'',
       icon = [CHR 0xF0, CHR 0x9F, CHR 0xA7, CHR 0xB9], color = ''#0984e3'',
       gradient = ''linear-gradient(135deg, #0984e3, #74b9ff)'', images = []\<rparr>]"

definition app_init :: app_state where
  "app_init =
     \<lparr>categories = CATEGORIES, activeCategory = None, isLoading = True, isUploading = False,
      error = None, calls = [], uuids = 0\<rparr>"

definition send :: "call \<Rightarrow> app_state \<Rightarrow> app_state" where
  "send c s = s\<lparr>calls := calls s @ [c]\<rparr>"

subsection \<open>Fetch\<close>

definition fetchImagesByCategory ::
  "env \<Rightarrow> string \<Rightarrow> app_state \<Rightarrow> (thrown + ImageRecord list) \<times> app_state" where
  "fetchImagesByCategory E cat s =
     (images_select E (calls s) cat, send (ImagesSelect cat) s)"

subsection \<open>Compress\<close>

definition MAX_SIZE :: nat where
  "MAX_SIZE = 1200"

definition QUALITY :: real where
  "QUALITY = 8 / 10"

text \<open>
  The size of the canvas that \<open>img.onload\<close> computes from the size of the image:
  \<open>Math.round(height * (MAX_SIZE / width))\<close> in doubles. A division happens only by a
  side that is above zero: by \<open>width\<close> when it is the longer side, by \<open>height\<close> when it
  is above \<open>MAX_SIZE\<close>.
\<close>

definition canvas_size :: "nat \<Rightarrow> nat \<Rightarrow> nat \<times> nat" where
  "canvas_size width height =
     (if width > MAX_SIZE \<or> height > MAX_SIZE then
        (if width > height then
           (MAX_SIZE, nat (Math_round (dval (dbl_mul height (dbl_div MAX_SIZE width)))))
         else
           (nat (Math_round (dval (dbl_mul width (dbl_div MAX_SIZE height)))), MAX_SIZE))
      else (width, height))"

definition compressImage :: "env \<Rightarrow> File \<Rightarrow> thrown + Blob" where
  "compressImage E file =
     (case decoded file of
        None \<Rightarrow> Inl (JsError ''Failed to load image'')
      | Some (width, height) \<Rightarrow>
          (let (w, h) = canvas_size width height
           in if toBlob E w h then
                Inr \<lparr>blob_width = w, blob_height = h, blob_type = ''image/webp'',
                     blob_quality = QUALITY\<rparr>
              else Inl (JsError ''Compression failed'')))"

subsection \<open>Upload\<close>

definition uploadImage ::
  "env \<Rightarrow> string \<Rightarrow> File \<Rightarrow> app_state \<Rightarrow> (thrown + ImageRecord) \<times> app_state" where
  "uploadImage E cat file s =
     (case compressImage E file of
        Inl err \<Rightarrow> (Inl err, s)
      | Inr blob \<Rightarrow>
          (let filename = cat @ ''/'' @ randomUUID E (uuids s) @ ''.webp'';
               s1 = s\<lparr>uuids := Suc (uuids s)\<rparr>;
               storageError = storage_upload E (calls s1) filename blob;
               s2 = send (StorageUpload filename blob) s1
           in case storageError of
                Some err \<Rightarrow> (Inl err, s2)
              | None \<Rightarrow>
                  (let publicUrl = getPublicUrl E filename;
                       s3 = send (StorageGetPublicUrl filename) s2;
                       answer = images_insert E (calls s3) cat filename publicUrl
                   in (answer, send (ImagesInsert cat filename publicUrl) s3))))"

subsection \<open>Delete\<close>

definition deleteImage :: "env \<Rightarrow> ImageRecord \<Rightarrow> app_state \<Rightarrow> thrown option \<times> app_state" where
  "deleteImage E record s =
     (let storageError = storage_remove E (calls s) [storage_path record];
          s1 = send (StorageRemove [storage_path record]) s
      in case storageError of
           Some err \<Rightarrow> (Some err, s1)
         | None \<Rightarrow>
             (images_delete E (calls s1) (image_id record),
              send (ImagesDelete (image_id record)) s1))"

section \<open>The image handlers of \<open>App\<close>\<close>

definition startsWith :: "string \<Rightarrow> string \<Rightarrow> bool" where
  "startsWith str p = (take (length p) str = p)"

text \<open>The update of \<open>categories\<close> after an upload, and the one after a delete.\<close>

definition prepend_image :: "string \<Rightarrow> ImageRecord \<Rightarrow> CategoryData list \<Rightarrow> CategoryData list" where
  "prepend_image active record prev =
     map (\<lambda>cat. if cat_id cat = active then cat\<lparr>images := record # images cat\<rparr> else cat) prev"

definition remove_image :: "string \<Rightarrow> ImageRecord \<Rightarrow> CategoryData list \<Rightarrow> CategoryData list" where
  "remove_image categoryId record prev =
     map (\<lambda>cat. if cat_id cat = categoryId
                then cat\<lparr>images := filter (\<lambda>img. image_id img \<noteq> image_id record) (images cat)\<rparr>
                else cat) prev"

text \<open>
  The \<open>for\<close> loop of \<open>handleFileChange\<close>, inside its \<open>try\<close>: the result is the value
  thrown, if any, and the state reached.
\<close>

fun upload_files :: "env \<Rightarrow> string \<Rightarrow> File list \<Rightarrow> app_state \<Rightarrow> thrown option \<times> app_state" where
  "upload_files E active [] s = (None, s)"
| "upload_files E active (file # files) s =
     (if \<not> startsWith (file_type file) ''image/'' then upload_files E active files s
      else
        (case uploadImage E active file s of
           (Inl err, s1) \<Rightarrow> (Some err, s1)
         | (Inr record, s1) \<Rightarrow>
             upload_files E active files
               (s1\<lparr>categories := prepend_image active record (categories s1)\<rparr>)))"

text \<open>\<open>files\<close> is \<open>e.target.files\<close>, which may be null.\<close>

definition handleFileChange :: "env \<Rightarrow> File list option \<Rightarrow> app_state \<Rightarrow> app_state" where
  "handleFileChange E files s =
     (case (files, activeCategory s) of
        (Some fs, Some active) \<Rightarrow>
          (if active = [] then s
           else
             (let s1 = s\<lparr>isUploading := True\<rparr>;
                  (thrown, s2) = upload_files E active fs s1;
                  s3 = (case thrown of
                          Some err \<Rightarrow> s2\<lparr>error := Some (err_message err ''Error al subir imagen'')\<rparr>
                        | None \<Rightarrow> s2)
              in s3\<lparr>isUploading := False\<rparr>))
      | _ \<Rightarrow> s)"

definition handleDeleteImage :: "env \<Rightarrow> string \<Rightarrow> ImageRecord \<Rightarrow> app_state \<Rightarrow> app_state" where
  "handleDeleteImage E categoryId record s =
     (case deleteImage E record s of
        (None, s1) \<Rightarrow> s1\<lparr>categories := remove_image categoryId record (categories s1)\<rparr>
      | (Some err, s1) \<Rightarrow> s1\<lparr>error := Some (err_message err ''Error al eliminar imagen'')\<rparr>)"

subsection \<open>The initial load\<close>

text \<open>
  \<open>CATEGORIES.map((cat) => fetchImagesByCategory(cat.id))\<close>: the requests leave in the
  order of the list.
\<close>

fun fetch_each ::
  "env \<Rightarrow> string list \<Rightarrow> app_state \<Rightarrow> (thrown + ImageRecord list) list \<times> app_state" where
  "fetch_each E [] s = ([], s)"
| "fetch_each E (c # cs) s =
     (let (r, s1) = fetchImagesByCategory E c s;
          (rs, s2) = fetch_each E cs s1
      in (r # rs, s2))"

text \<open>
  \<open>Promise.all\<close> rejects with the reason of the promise that rejects first in time.
  \<open>order\<close> lists the indices of the promises in the order they settle; indices it leaves
  out settle afterwards, in the order of the list.
\<close>

definition Promise_all :: "nat list \<Rightarrow> (thrown + 'a) list \<Rightarrow> thrown + 'a list" where
  "Promise_all order rs =
     (case filter (\<lambda>i. i < length rs \<and> isl (rs ! i)) (order @ [0..<length rs]) of
        [] \<Rightarrow> Inr (map projr rs)
      | i # _ \<Rightarrow> Inl (projl (rs ! i)))"

text \<open>\<open>cancelled\<close> is the flag that the clean-up of the effect sets.\<close>

definition load :: "env \<Rightarrow> nat list \<Rightarrow> bool \<Rightarrow> app_state \<Rightarrow> app_state" where
  "load E order cancelled s =
     (let (rs, s1) = fetch_each E (map cat_id CATEGORIES) s
      in if cancelled then s1
         else
           (let s2 = (case Promise_all order rs of
                        Inr results \<Rightarrow>
                          s1\<lparr>categories :=
                               map (\<lambda>(cat, imgs). cat\<lparr>images := imgs\<rparr>) (zip CATEGORIES results)\<rparr>
                      | Inl err \<Rightarrow> s1\<lparr>error := Some (err_message err ''Error al cargar datos'')\<rparr>)
            in s2\<lparr>isLoading := False\<rparr>))"

section \<open>Sample inputs\<close>

text \<open>Concrete inputs, on which the theorems below are instantiated.\<close>

definition touch_at :: "real \<Rightarrow> real \<Rightarrow> Touch" where
  "touch_at x y = \<lparr>clientX = x, clientY = y\<rparr>"

text \<open>The state after two fingers have come down 100 pixels apart on the unzoomed image.\<close>

definition pinch_100 :: zoom_state where
  "pinch_100 = handleTouchStart [touch_at 0 0, touch_at 100 0] zoom_init"

text \<open>
  Collaborators that answer every request with success; the row inserted takes the
  storage path as its identifier.
\<close>

definition env_ok :: env where
  "env_ok =
     \<lparr>storage_upload = (\<lambda>log path blob. None),
      getPublicUrl = (\<lambda>path. ''https://cdn.example/'' @ path),
      images_insert = (\<lambda>log cat path u.
         Inr \<lparr>image_id = path, category = cat, storage_path = path, url = u,
              created_at = ''2026''\<rparr>),
      storage_remove = (\<lambda>log paths. None),
      images_delete = (\<lambda>log i. None),
      images_select = (\<lambda>log cat. Inr []),
      toBlob = (\<lambda>w h. True),
      randomUUID = (\<lambda>n. replicate (Suc n) CHR ''u'')\<rparr>"

definition image_file :: "nat \<Rightarrow> nat \<Rightarrow> File" where
  "image_file w h = \<lparr>file_type = ''image/png'', decoded = Some (w, h)\<rparr>"

text \<open>A file that declares an image type and whose content the browser cannot decode.\<close>

definition broken_file :: File where
  "broken_file = \<lparr>file_type = ''image/png'', decoded = None\<rparr>"

definition pdf_file :: File where
  "pdf_file = \<lparr>file_type = ''application/pdf'', decoded = None\<rparr>"

text \<open>The loaded board with the category \<open>campo\<close> open.\<close>

definition campo_open :: app_state where
  "campo_open = app_init\<lparr>activeCategory := Some ''campo'', isLoading := False\<rparr>"

text \<open>The row that \<open>env_ok\<close> inserts for an upload into \<open>campo\<close> under the given identifier.\<close>

definition campo_row :: "string \<Rightarrow> ImageRecord" where
  "campo_row uuid =
     \<lparr>image_id = ''campo/'' @ uuid @ ''.webp'', category = ''campo'',
      storage_path = ''campo/'' @ uuid @ ''.webp'',
      url = ''https://cdn.example/campo/'' @ uuid @ ''.webp'', created_at = ''2026''\<rparr>"

text \<open>The board after one upload into \<open>campo\<close>.\<close>

definition campo_one :: app_state where
  "campo_one =
     campo_open
       \<lparr>categories := prepend_image ''campo'' (campo_row ''u'') CATEGORIES,
        calls :=
          [StorageUpload ''campo/u.webp''
             \<lparr>blob_width = 800, blob_height = 600, blob_type = ''image/webp'',
              blob_quality = QUALITY\<rparr>,
           StorageGetPublicUrl ''campo/u.webp'',
           ImagesInsert ''campo'' ''campo/u.webp'' ''https://cdn.example/campo/u.webp''],
        uuids := 1\<rparr>"

text \<open>Collaborators whose bucket refuses every removal.\<close>

definition env_storage_down :: env where
  "env_storage_down = env_ok\<lparr>storage_remove := (\<lambda>log paths. Some (JsError ''storage down''))\<rparr>"

text \<open>Collaborators whose table fails on the query for \<open>reuniones\<close>.\<close>

definition env_reuniones_down :: env where
  "env_reuniones_down =
     env_ok\<lparr>images_select :=
              (\<lambda>log cat. if cat = ''reuniones'' then Inl (JsError ''network down'') else Inr [])\<rparr>"

section \<open>Facts about the numbers and the state\<close>

lemma Math_hypot_zero: "Math_hypot dx 0 = \<bar>dx\<bar>"
  by (simp add: Math_hypot_def)

lemma Math_hypot_pos:
  assumes "dx \<noteq> 0 \<or> dy \<noteq> 0"
  shows "0 < Math_hypot dx dy"
proof -
  have "0 < dx * dx + dy * dy"
    using assms by (metis not_sum_squares_lt_zero sum_squares_eq_zero_iff less_eq_real_def not_le)
  then show ?thesis by (simp add: Math_hypot_def)
qed

lemma pinch_move_refs:
  "pinchStartDistRef (handleTouchMove [t0, t1] s) = pinchStartDistRef s \<and>
   pinchStartScaleRef (handleTouchMove [t0, t1] s) = pinchStartScaleRef s"
  by (simp add: Let_def)

lemma pinch_move_finite:
  assumes "pinchStartScaleRef s = Fin b" and "0 < pinchStartDistRef s"
  shows "scale (handleTouchMove [t0, t1] s) =
           Fin (min 5 (max 1 (b * (Math_hypot (clientX t0 - clientX t1) (clientY t0 - clientY t1)
                                     / pinchStartDistRef s))))"
  using assms by (simp add: Let_def js_div_def)

lemma pinch_moves_bounded:
  assumes "pinchStartScaleRef s = Fin b" and "0 < pinchStartDistRef s"
    and "\<forall>e \<in> set es. length e = 2"
  shows "\<forall>s' \<in> set (moves es s). \<exists>r. scale s' = Fin r \<and> 1 \<le> r \<and> r \<le> 5"
  using assms
proof (induction es arbitrary: s)
  case Nil
  then show ?case by simp
next
  case (Cons e es)
  from Cons.prems(3) have "length e = 2" by simp
  then obtain t0 t1 where e: "e = [t0, t1]"
    by (cases e; cases "tl e") auto
  let ?s1 = "handleTouchMove e s"
  have refs: "pinchStartScaleRef ?s1 = Fin b" "0 < pinchStartDistRef ?s1"
    using Cons.prems(1,2) pinch_move_refs [of t0 t1 s] by (simp_all add: e)
  have here: "\<exists>r. scale ?s1 = Fin r \<and> 1 \<le> r \<and> r \<le> 5"
    unfolding e using pinch_move_finite [OF Cons.prems(1,2), of t0 t1] by simp
  have rest: "\<forall>s' \<in> set (moves es ?s1). \<exists>r. scale s' = Fin r \<and> 1 \<le> r \<and> r \<le> 5"
    using Cons.IH [OF refs] Cons.prems(3) by simp
  show ?case using here rest by simp
qed

lemma pinch_100_refs:
  "pinchStartScaleRef pinch_100 = Fin 1 \<and> pinchStartDistRef pinch_100 = 100 \<and>
   scale pinch_100 = Fin 1 \<and> position pinch_100 = (0, 0)"
  by (simp add: pinch_100_def touch_at_def zoom_init_def Let_def Math_hypot_zero)

subsection \<open>The doubles are within half a unit of the last place\<close>

lemma bits_bounds:
  "0 < n \<Longrightarrow> n < 2 ^ bits n \<and> 2 ^ bits n \<le> 2 * n"
proof (induction n rule: bits.induct)
  case (1 n)
  show ?case
  proof (cases "n div 2 = 0")
    case True
    with "1.prems" have "n = 1" by (simp add: div_eq_0_iff) 
    then show ?thesis by (simp add: bits.simps [of "Suc 0"] bits.simps [of 0])
  next
    case False
    then have "0 < n div 2" by simp
    with "1.IH" "1.prems" have ih: "n div 2 < 2 ^ bits (n div 2)" "2 ^ bits (n div 2) \<le> 2 * (n div 2)"
      by simp_all
    have b: "bits n = Suc (bits (n div 2))"
      using "1.prems" by (simp add: bits.simps [of n])
    from ih show ?thesis unfolding b by (simp; linarith)
  qed
qed

lemma round_even_near:
  assumes "0 < d"
  shows "\<bar>real (round_even n d) - real n / real d\<bar> \<le> 1 / 2"
proof -
  define q r where "q = n div d" and "r = n mod d"
  have n: "real n = real q * real d + real r"
    unfolding q_def r_def by (metis of_nat_add of_nat_mult div_mult_mod_eq)
  have r: "r < d" unfolding r_def using assms by simp
  have x: "real n / real d = real q + real r / real d"
    using assms by (simp add: n field_simps)
  have c1: "2 * r < d \<Longrightarrow> real r / real d \<le> 1 / 2"
    using assms by (simp add: field_simps)
  have c2: "d < 2 * r \<Longrightarrow> 1 / 2 \<le> real r / real d"
    using assms by (simp add: field_simps)
  have c3: "\<not> 2 * r < d \<Longrightarrow> \<not> d < 2 * r \<Longrightarrow> real r / real d = 1 / 2"
    using assms by (simp add: field_simps)
  define t where "t = real r / real d"
  have t: "0 \<le> t" "t < 1" using r assms by (simp_all add: t_def)
  have re: "round_even n d = (if 2 * r < d then q else if d < 2 * r then q + 1
                              else if even q then q else q + 1)"
    by (simp add: round_even_def Let_def q_def r_def)
  consider "2 * r < d" | "d < 2 * r" | "\<not> 2 * r < d" "\<not> d < 2 * r" by blast
  then have "\<bar>real (round_even n d) - (real q + t)\<bar> \<le> 1 / 2"
  proof cases
    case 1
    then have "round_even n d = q" "t \<le> 1 / 2" using re c1 by (simp_all add: t_def)
    then show ?thesis using t by simp
  next
    case 2
    then have "round_even n d = q + 1" "1 / 2 \<le> t" using re c2 by (simp_all add: t_def)
    then show ?thesis using t by simp
  next
    case 3
    then have "round_even n d = q \<or> round_even n d = q + 1" "t = 1 / 2"
      using re c3 by (simp_all add: t_def)
    then show ?thesis by auto
  qed
  then show ?thesis by (simp add: x t_def)
qed

lemma below_pow2_iff:
  assumes "0 < q"
  shows "below_pow2 p q d \<longleftrightarrow> real p / real q < 2 powi d"
proof (cases "0 \<le> d")
  case True
  have pw: "(2::real) powi d = 2 ^ nat d" using True by (simp add: power_int_def)
  have "p < q * 2 ^ nat d \<longleftrightarrow> real p < real q * 2 ^ nat d"
    by (metis of_nat_less_iff of_nat_mult of_nat_numeral of_nat_power)
  then show ?thesis using True assms by (simp add: below_pow2_def pw field_simps)
next
  case False
  have pw: "(2::real) powi d = 1 / 2 ^ nat (- d)"
    using False by (simp add: power_int_def field_simps)
  have "p * 2 ^ nat (- d) < q \<longleftrightarrow> real p * 2 ^ nat (- d) < real q"
    by (metis of_nat_less_iff of_nat_mult of_nat_numeral of_nat_power)
  then show ?thesis using False assms by (simp add: below_pow2_def pw field_simps)
qed


lemma quotient_above_pow2:
  assumes "0 < p" and "0 < q"
  shows "2 powi (int (bits p) - int (bits q) - 1) \<le> real p / real q"
proof -
  have p: "(2::real) ^ bits p \<le> 2 * real p"
    using bits_bounds [OF assms(1)]
    by (metis of_nat_le_iff of_nat_mult of_nat_numeral of_nat_power)
  have q: "real q < 2 ^ bits q"
    using bits_bounds [OF assms(2)]
    by (metis of_nat_less_iff of_nat_numeral of_nat_power)
  have "(2::real) powi (int (bits p) - int (bits q) - 1) = 2 ^ bits p / 2 / 2 ^ bits q"
    by (simp add: power_int_diff)
  also have "\<dots> \<le> real p / 2 ^ bits q"
    using p by (simp add: field_simps)
  also have "\<dots> \<le> real p / real q"
    using q assms by (simp add: frac_le)
  finally show ?thesis .
qed

lemma nearest_double_near:
  assumes "0 < p" and "0 < q"
  shows "\<bar>dval (nearest_double p q e) - real p / real q * 2 powi e\<bar>
           \<le> real p / real q * 2 powi e / 2 ^ 53"
proof -
  define d where "d = int (bits p) - int (bits q)"
  define k where "k = (if below_pow2 p q d then d - 53 else d - 52)"
  define m where "m = (if 0 \<le> k then round_even p (q * 2 ^ nat k)
                       else round_even (p * 2 ^ nat (- k)) q)"
  define t where "t = real p / real q / 2 powi k"
  have nd: "nearest_double p q e = (m, k + e)"
    using assms(1) by (simp add: nearest_double_def Let_def d_def k_def m_def)
  have near: "\<bar>real m - t\<bar> \<le> 1 / 2"
  proof (cases "0 \<le> k")
    case True
    then have pw: "(2::real) powi k = 2 ^ nat k" by (simp add: power_int_def)
    have "\<bar>real (round_even p (q * 2 ^ nat k)) - real p / real (q * 2 ^ nat k)\<bar> \<le> 1 / 2"
      using assms(2) by (intro round_even_near) simp
    then show ?thesis using True by (simp add: m_def t_def pw)
  next
    case False
    then have pw: "(2::real) powi k = 1 / 2 ^ nat (- k)"
      by (simp add: power_int_def field_simps)
    have "\<bar>real (round_even (p * 2 ^ nat (- k)) q) - real (p * 2 ^ nat (- k)) / real q\<bar> \<le> 1 / 2"
      using assms(2) by (intro round_even_near)
    then show ?thesis using False by (simp add: m_def t_def pw)
  qed
  have low: "2 powi (k + 52) \<le> real p / real q"
  proof (cases "below_pow2 p q d")
    case True
    then have "k + 52 = int (bits p) - int (bits q) - 1" by (simp add: k_def d_def)
    then show ?thesis using quotient_above_pow2 [OF assms] by (simp only:)
  next
    case False
    then have "k + 52 = d" by (simp add: k_def)
    moreover have "2 powi d \<le> real p / real q"
      using False below_pow2_iff [OF assms(2), of p d] by simp
    ultimately show ?thesis by (simp only:)
  qed
  have pk: "(0::real) < 2 powi k" by simp
  have "(2::real) powi (k + 52) = 2 ^ 52 * 2 powi k"
    by (simp add: power_int_add)
  with low have "2 ^ 52 * 2 powi k \<le> real p / real q"
    by (simp only:)
  then have t52: "2 ^ 52 \<le> t"
    unfolding t_def by (simp only: pos_le_divide_eq [OF pk])
  define u where "u = (2::real) powi k * 2 powi e"
  have u: "0 < u" by (simp add: u_def)
  have val: "dval (nearest_double p q e) = real m * u"
    by (simp add: nd dval_def u_def power_int_add)
  have x: "real p / real q * 2 powi e = t * u"
    by (simp add: t_def u_def)
  have "\<bar>real m * u - t * u\<bar> = \<bar>real m - t\<bar> * u"
    using u by (simp add: abs_mult left_diff_distrib [symmetric])
  also have "\<dots> \<le> 1 / 2 * u"
    using near u by (intro mult_right_mono) simp_all
  also have "\<dots> \<le> t * u / 2 ^ 53"
  proof -
    have "1 / 2 * u = 2 ^ 52 * u / 2 ^ 53" by simp
    also have "\<dots> \<le> t * u / 2 ^ 53"
      by (intro divide_right_mono mult_right_mono) (use t52 u in simp_all)
    finally show ?thesis .
  qed
  finally show ?thesis by (simp only: val x)
qed


lemma dbl_div_near:
  assumes "0 < p" and "0 < q"
  shows "\<bar>dval (dbl_div p q) - real p / real q\<bar> \<le> real p / real q / 2 ^ 53"
  using nearest_double_near [OF assms, of 0] by (simp add: dbl_div_def)

lemma dbl_mul_near:
  "\<bar>dval (dbl_mul a r) - real a * dval r\<bar> \<le> real a * dval r / 2 ^ 53"
proof (cases "a * fst r = 0")
  case True
  then show ?thesis by (auto simp: dbl_mul_def nearest_double_def dval_def)
next
  case False
  then have "0 < a * fst r" by simp
  from nearest_double_near [OF this, of 1 "snd r"]
  show ?thesis by (simp add: dbl_mul_def dval_def mult.assoc)
qed

lemma scaled_product_near:
  assumes "0 < b"
  shows "\<bar>dval (dbl_mul a (dbl_div MAX_SIZE b)) - real a * (real MAX_SIZE / real b)\<bar>
           \<le> 3 * (real a * (real MAX_SIZE / real b)) / 2 ^ 53"
proof -
  define c where "c = real MAX_SIZE / real b"
  define r where "r = dval (dbl_div MAX_SIZE b)"
  define y where "y = dval (dbl_mul a (dbl_div MAX_SIZE b))"
  have c0: "0 \<le> c" by (simp add: c_def)
  have r: "\<bar>r - c\<bar> \<le> c / 2 ^ 53"
    unfolding r_def c_def using assms by (intro dbl_div_near) (simp_all add: MAX_SIZE_def)
  have y: "\<bar>y - real a * r\<bar> \<le> real a * r / 2 ^ 53"
    unfolding y_def r_def by (rule dbl_mul_near)
  have "c / 2 ^ 53 \<le> c" using c0 by (simp add: field_simps)
  then have r2: "r \<le> 2 * c" using r by linarith
  have "real a * r \<le> real a * (2 * c)"
    using r2 by (intro mult_left_mono) simp_all
  then have y2: "\<bar>y - real a * r\<bar> \<le> 2 * (real a * c) / 2 ^ 53"
    using y by (simp add: field_simps)
  have "\<bar>real a * r - real a * c\<bar> = real a * \<bar>r - c\<bar>"
    by (simp add: abs_mult right_diff_distrib [symmetric])
  also have "\<dots> \<le> real a * (c / 2 ^ 53)"
    using r by (intro mult_left_mono) simp_all
  finally have r3: "\<bar>real a * r - real a * c\<bar> \<le> real a * c / 2 ^ 53" by simp
  have "\<bar>y - real a * c\<bar> \<le> \<bar>y - real a * r\<bar> + \<bar>real a * r - real a * c\<bar>" by simp
  also have "\<dots> \<le> 2 * (real a * c) / 2 ^ 53 + real a * c / 2 ^ 53"
    using y2 r3 by (rule add_mono)
  also have "\<dots> = 3 * (real a * c) / 2 ^ 53" by simp
  finally show ?thesis by (simp only: y_def c_def)
qed

lemma round_of_near_quotient:
  assumes b: "0 < b" and near: "\<bar>y - real A / real b\<bar> \<le> \<delta>" and small: "\<delta> * (2 * real b) < 1"
  shows "\<bar>real_of_int (Math_round y) - real A / real b\<bar> \<le> 1 / 2"
proof -
  define k where "k = Math_round y"
  define x where "x = real A / real b"
  have k: "real_of_int k \<le> y + 1 / 2" "y + 1 / 2 < real_of_int k + 1"
    unfolding k_def Math_round_def by linarith+
  have rb: "0 < real b" using b by simp
  have xb: "x * real b = real A" using b by (simp add: x_def)
  have upper: "x \<le> real_of_int k + 1 / 2"
  proof (rule ccontr)
    assume "\<not> x \<le> real_of_int k + 1 / 2"
    then have "(real_of_int k + 1 / 2) * real b < x * real b"
      using rb by simp
    then have "real_of_int ((2 * k + 1) * int b) < real_of_int (2 * int A)"
      by (simp add: xb algebra_simps)
    then have "(2 * k + 1) * int b < 2 * int A" by (simp only: of_int_less_iff)
    then have "(2 * k + 1) * int b + 1 \<le> 2 * int A" by simp
    then have "real_of_int ((2 * k + 1) * int b + 1) \<le> real_of_int (2 * int A)"
      by (simp only: of_int_le_iff)
    then have "(2 * real_of_int k + 1) * real b + 1 \<le> 2 * (x * real b)"
      by (simp add: xb)
    moreover have "x \<le> y + \<delta>" using near by (simp add: x_def abs_le_iff)
    then have "x * real b \<le> (y + \<delta>) * real b" using rb by simp
    moreover have "y * real b < (real_of_int k + 1 / 2) * real b"
      using k(2) rb by simp
    ultimately show False using small by (simp add: algebra_simps)
  qed
  have lower: "real_of_int k - 1 / 2 \<le> x"
  proof (rule ccontr)
    assume "\<not> real_of_int k - 1 / 2 \<le> x"
    then have "x * real b < (real_of_int k - 1 / 2) * real b"
      using rb by simp
    then have "real_of_int (2 * int A) < real_of_int ((2 * k - 1) * int b)"
      by (simp add: xb algebra_simps)
    then have "2 * int A < (2 * k - 1) * int b" by (simp only: of_int_less_iff)
    then have "2 * int A + 1 \<le> (2 * k - 1) * int b" by simp
    then have "real_of_int (2 * int A + 1) \<le> real_of_int ((2 * k - 1) * int b)"
      by (simp only: of_int_le_iff)
    then have "2 * (x * real b) + 1 \<le> (2 * real_of_int k - 1) * real b"
      by (simp add: xb)
    moreover have "y - \<delta> \<le> x" using near by (simp add: x_def abs_le_iff)
    then have "(y - \<delta>) * real b \<le> x * real b" using rb by simp
    moreover have "(real_of_int k - 1 / 2) * real b \<le> y * real b"
      using k(1) rb by simp
    ultimately show False using small by (simp add: algebra_simps)
  qed
  have "\<bar>real_of_int k - x\<bar> \<le> 1 / 2" using upper lower by linarith
  then show ?thesis by (simp only: k_def x_def)
qed

lemma scaled_side:
  assumes "a \<le> b" and "0 < b" and "b < 2 ^ 32"
  shows "nat (Math_round (dval (dbl_mul a (dbl_div MAX_SIZE b)))) \<le> MAX_SIZE \<and>
         \<bar>real (nat (Math_round (dval (dbl_mul a (dbl_div MAX_SIZE b)))))
            - real a * (real MAX_SIZE / real b)\<bar> \<le> 1 / 2"
proof -
  define y where "y = dval (dbl_mul a (dbl_div MAX_SIZE b))"
  define x where "x = real (a * MAX_SIZE) / real b"
  have xe: "x = real a * (real MAX_SIZE / real b)" by (simp add: x_def)
  have x0: "0 \<le> x" by (simp add: x_def)
  have "real a / real b \<le> 1" using assms(1,2) by simp
  then have "real MAX_SIZE * (real a / real b) \<le> real MAX_SIZE * 1"
    by (intro mult_left_mono) simp_all
  then have x1: "x \<le> 1200" by (simp add: x_def MAX_SIZE_def mult.commute)
  have near: "\<bar>y - x\<bar> \<le> 3 * x / 2 ^ 53"
    unfolding y_def xe by (rule scaled_product_near [OF assms(2)])
  have "real b < 2 ^ 32"
    using assms(3) by (metis of_nat_less_iff of_nat_numeral of_nat_power)
  then have "2 * real b \<le> 2 ^ 33" by simp
  moreover have d0: "0 \<le> 3 * x / 2 ^ 53" using x0 by simp
  ultimately have "3 * x / 2 ^ 53 * (2 * real b) \<le> 3 * x / 2 ^ 53 * 2 ^ 33"
    by (intro mult_left_mono)
  also have "\<dots> \<le> 3 * 1200 / 2 ^ 53 * 2 ^ 33" using x1 by simp
  also have "\<dots> < 1" by simp
  finally have small: "3 * x / 2 ^ 53 * (2 * real b) < 1" .
  have r: "\<bar>real_of_int (Math_round y) - x\<bar> \<le> 1 / 2"
    unfolding x_def using assms(2) near [unfolded x_def] small [unfolded x_def]
    by (rule round_of_near_quotient)
  then have "- 1 < real_of_int (Math_round y)" "real_of_int (Math_round y) < 1201"
    using x0 x1 by linarith+
  then have bounds: "0 \<le> Math_round y" "Math_round y \<le> 1200" by linarith+
  then have "real (nat (Math_round y)) = real_of_int (Math_round y)" by simp
  then show ?thesis
    using r bounds unfolding y_def [symmetric] xe by (simp add: MAX_SIZE_def)
qed

lemma canvas_wide:
  assumes "MAX_SIZE < max W H" and "H < W"
  shows "canvas_size W H =
           (MAX_SIZE, nat (Math_round (dval (dbl_mul H (dbl_div MAX_SIZE W)))))"
  using assms by (auto simp: canvas_size_def)

lemma canvas_tall:
  assumes "MAX_SIZE < max W H" and "W \<le> H"
  shows "canvas_size W H =
           (nat (Math_round (dval (dbl_mul W (dbl_div MAX_SIZE H)))), MAX_SIZE)"
  using assms by (auto simp: canvas_size_def)

subsection \<open>Evaluating the doubles\<close>

lemma bits_numeral_simps:
  "bits 0 = 0"
  "bits (Suc 0) = 1"
  "bits 1 = 1"
  "bits (numeral (Num.Bit0 n)) = Suc (bits (numeral n))"
  "bits (numeral (Num.Bit1 n)) = Suc (bits (numeral n))"
proof -
  show "bits 0 = 0" by (simp add: bits.simps [of 0])
  show s: "bits (Suc 0) = 1" by (simp add: bits.simps [of "Suc 0"] bits.simps [of 0])
  then show "bits 1 = 1" by simp
  have "numeral (Num.Bit0 n) div 2 = (numeral n :: nat)"
    by (simp add: numeral_Bit0_div_2)
  then show "bits (numeral (Num.Bit0 n)) = Suc (bits (numeral n))"
    by (simp add: bits.simps [of "numeral (Num.Bit0 n)"])
  have "numeral (Num.Bit1 n) div 2 = (numeral n :: nat)"
    by (simp add: numeral_Bit1_div_2)
  then show "bits (numeral (Num.Bit1 n)) = Suc (bits (numeral n))"
    by (simp add: bits.simps [of "numeral (Num.Bit1 n)"])
qed

lemmas dbl_eval = canvas_size_def MAX_SIZE_def dbl_div_def dbl_mul_def nearest_double_def
  below_pow2_def round_even_def dval_def Math_round_def Let_def bits_numeral_simps

text \<open>The quotient \<open>1200 / 1760\<close> is the double \<open>6141272219141585 * 2 ^ -53\<close>.\<close>

lemma dbl_div_1200_1760: "dbl_div 1200 1760 = (6141272219141585, - 53)"
  by (simp add: dbl_eval)

lemma canvas_800_600: "canvas_size 800 600 = (800, 600)"
  by (simp add: canvas_size_def MAX_SIZE_def)

lemma canvas_4000_2000: "canvas_size 4000 2000 = (1200, 600)"
  by (simp add: dbl_eval)

lemma canvas_1500_3000: "canvas_size 1500 3000 = (600, 1200)"
  by (simp add: dbl_eval)

text \<open>
  Two sizes whose exact quotient is a tie: \<open>11 * 1200 / 1760\<close> is 7.5, and in doubles
  the product is just below it, so the height is 7; \<open>1325 * 1200 / 1696\<close> is 937.5, and
  the height is 937.
\<close>

lemma canvas_1760_11: "canvas_size 1760 11 = (1200, 7)"
  by (simp add: dbl_eval)

lemma canvas_1696_1325: "canvas_size 1696 1325 = (1200, 937)"
  by (simp add: dbl_eval)

lemma send_fields:
  "calls (send c s) = calls s @ [c]"
  "categories (send c s) = categories s"
  "error (send c s) = error s"
  "isUploading (send c s) = isUploading s"
  "isLoading (send c s) = isLoading s"
  "activeCategory (send c s) = activeCategory s"
  "uuids (send c s) = uuids s"
  by (simp_all add: send_def)

lemma uploadImage_categories:
  "uploadImage E active file s = (r, s1) \<Longrightarrow> categories s1 = categories s"
  by (auto simp: uploadImage_def Let_def send_fields split: sum.splits option.splits)

lemma uploadImage_compress_fails:
  "compressImage E file = Inl err \<Longrightarrow> uploadImage E active file s = (Inl err, s)"
  by (simp add: uploadImage_def)

text \<open>The loop over a batch is the loop over its first part, then over the rest, unless the
  first part threw.\<close>

lemma upload_files_append:
  "upload_files E active (pre @ post) s =
     (case upload_files E active pre s of
        (None, s1) \<Rightarrow> upload_files E active post s1
      | (Some err, s1) \<Rightarrow> (Some err, s1))"
  by (induction pre arbitrary: s) (auto split: prod.splits sum.splits option.splits)

lemma handleFileChange_categories:
  assumes "activeCategory s = Some active" and "active \<noteq> []"
  shows "categories (handleFileChange E (Some fs) s) =
           categories (snd (upload_files E active fs (s\<lparr>isUploading := True\<rparr>)))"
  using assms
  by (simp add: handleFileChange_def Let_def split: prod.splits option.splits)

text \<open>
  A loop that ends without a throw has put one record per image file in front of the
  images of the open category, and has changed nothing else of the categories.
\<close>

lemma upload_files_prepends:
  "upload_files E active fs s0 = (None, s') \<Longrightarrow>
   \<exists>recs. length recs = length (filter (\<lambda>f. startsWith (file_type f) ''image/'') fs) \<and>
          categories s' =
            map (\<lambda>cat. if cat_id cat = active then cat\<lparr>images := recs @ images cat\<rparr> else cat)
              (categories s0)"
proof (induction fs arbitrary: s0)
  case Nil
  then have "categories s' = categories s0" by simp
  moreover have "map (\<lambda>cat. if cat_id cat = active then cat\<lparr>images := [] @ images cat\<rparr> else cat)
      cs = cs" for cs :: "CategoryData list"
    by (induction cs) simp_all
  ultimately show ?case by (intro exI [of _ "[]"]) simp
next
  case (Cons f fs)
  show ?case
  proof (cases "startsWith (file_type f) ''image/''")
    case False
    with Cons.prems have "upload_files E active fs s0 = (None, s')" by simp
    from Cons.IH [OF this] False show ?thesis by simp
  next
    case True
    obtain res s1 where up: "uploadImage E active f s0 = (res, s1)"
      by (cases "uploadImage E active f s0")
    with Cons.prems True obtain rcd where res: "res = Inr rcd"
      by (cases res) auto
    have c1: "categories s1 = categories s0"
      using uploadImage_categories [OF up] .
    have "upload_files E active fs
            (s1\<lparr>categories := prepend_image active rcd (categories s1)\<rparr>) = (None, s')"
      using Cons.prems True up res by simp
    from Cons.IH [OF this] obtain recs where
      recs: "length recs = length (filter (\<lambda>f. startsWith (file_type f) ''image/'') fs)"
        "categories s' =
           map (\<lambda>cat. if cat_id cat = active then cat\<lparr>images := recs @ images cat\<rparr> else cat)
             (prepend_image active rcd (categories s0))"
      by (auto simp: c1)
    have "categories s' =
           map (\<lambda>cat. if cat_id cat = active
                      then cat\<lparr>images := (recs @ [rcd]) @ images cat\<rparr> else cat)
             (categories s0)"
      unfolding recs(2) prepend_image_def by simp
    moreover have "length (recs @ [rcd]) =
        length (filter (\<lambda>f. startsWith (file_type f) ''image/'') (f # fs))"
      using recs(1) True by simp
    ultimately show ?thesis by blast
  qed
qed

lemma fetch_each_state:
  "fetch_each E cs s = (rs, s1) \<Longrightarrow>
   categories s1 = categories s \<and> error s1 = error s \<and>
   calls s1 = calls s @ map ImagesSelect cs \<and> length rs = length cs"
  by (induction cs arbitrary: s rs s1)
     (auto simp: fetchImagesByCategory_def send_fields split: prod.splits)

lemma Promise_all_rejects:
  assumes "\<exists>r \<in> set rs. isl r"
  shows "\<exists>err. Inl err \<in> set rs \<and> Promise_all order rs = Inl err"
proof -
  let ?P = "\<lambda>i. i < length rs \<and> isl (rs ! i)"
  from assms obtain i where i: "i < length rs" "isl (rs ! i)"
    by (auto simp: in_set_conv_nth)
  then have "i \<in> set (filter ?P (order @ [0..<length rs]))" by simp
  then have "filter ?P (order @ [0..<length rs]) \<noteq> []"
    by (metis empty_iff list.set(1))
  then obtain j js where js: "filter ?P (order @ [0..<length rs]) = j # js"
    by (cases "filter ?P (order @ [0..<length rs])") simp_all
  then have "j \<in> set (filter ?P (order @ [0..<length rs]))" by simp
  then have j: "j < length rs" "isl (rs ! j)" by auto
  then have "Inl (projl (rs ! j)) \<in> set rs"
    by (metis nth_mem sum.collapse(1))
  moreover have "Promise_all order rs = Inl (projl (rs ! j))"
    unfolding Promise_all_def js by simp
  ultimately show ?thesis by blast
qed

text \<open>The sample uploads, evaluated.\<close>

lemma first_upload:
  "handleFileChange env_ok (Some [image_file 800 600]) campo_open = campo_one"
  by (simp add: handleFileChange_def campo_one_def campo_open_def app_init_def image_file_def
      env_ok_def campo_row_def uploadImage_def compressImage_def startsWith_def Let_def
      canvas_800_600 send_def)

lemma images_after_uploads:
  "map images (categories campo_one) = [[campo_row ''u''], [], [], []] \<and>
   map images (categories (handleFileChange env_ok (Some [image_file 4000 2000]) campo_one)) =
     [[campo_row ''uu'', campo_row ''u''], [], [], []]"
  by (simp add: handleFileChange_def campo_one_def campo_open_def app_init_def image_file_def
      env_ok_def campo_row_def uploadImage_def compressImage_def startsWith_def Let_def
      canvas_800_600 canvas_4000_2000 send_def prepend_image_def CATEGORIES_def)

section \<open>The gesture engine\<close>

text \<open>
  The clamp of \<open>handleTouchMove\<close> passes NaN on: before any pinch has started, a move
  whose two contact points coincide divides zero by zero, and the scale published is NaN.
\<close>

lemma pinch_move_coinciding_points:
  "scale (handleTouchMove [touch_at 7 3, touch_at 7 3] zoom_init) = NaN"
  by (simp add: touch_at_def zoom_init_def Let_def Math_hypot_zero js_div_def)

text \<open>
  C3, as the code has it. The claim says that a two-point move whose pinch baseline
  distance is zero, or not yet set, publishes nothing. \<open>handleTouchMove\<close> has no such
  guard: it divides by the reference as it is. With the baseline distance zero, a finite
  positive baseline scale and the two contact points apart, the quotient is the positive
  infinity, and the scale published is the upper bound 5; nothing else of the state
  changes.
\<close>

theorem pinch_move_zero_baseline_publishes_max:
  assumes "pinchStartDistRef s = 0" and "pinchStartScaleRef s = Fin b" and "0 < b"
    and "clientX t0 \<noteq> clientX t1 \<or> clientY t0 \<noteq> clientY t1"
  shows "handleTouchMove [t0, t1] s = s\<lparr>scale := Fin 5\<rparr>"
proof -
  have "0 < Math_hypot (clientX t0 - clientX t1) (clientY t0 - clientY t1)"
    using assms(4) by (simp add: Math_hypot_pos)
  then show ?thesis
    using assms(1-3) by (simp add: Let_def js_div_def js_le_def)
qed

theorem pinch_move_zero_baseline_publishes_max_witness:
  "pinchStartDistRef zoom_init = 0 \<and> pinchStartScaleRef zoom_init = Fin 1 \<and> (0::real) < 1 \<and>
   clientX (touch_at 0 0) \<noteq> clientX (touch_at 100 0) \<and>
   handleTouchMove [touch_at 0 0, touch_at 100 0] zoom_init = zoom_init\<lparr>scale := Fin 5\<rparr>"
proof -
  have h1: "pinchStartDistRef zoom_init = 0" and h2: "pinchStartScaleRef zoom_init = Fin 1"
    by (simp_all add: zoom_init_def)
  have h3: "clientX (touch_at 0 0) \<noteq> clientX (touch_at 100 0)"
    by (simp add: touch_at_def)
  have "handleTouchMove [touch_at 0 0, touch_at 100 0] zoom_init = zoom_init\<lparr>scale := Fin 5\<rparr>"
    using pinch_move_zero_baseline_publishes_max [OF h1 h2, of "touch_at 0 0" "touch_at 100 0"] h3
    by simp
  then show ?thesis using h1 h2 h3 by simp
qed

text \<open>
  C3, as stated, fails: before any pinch has started the baseline distance is zero, and a
  move with two contact points 100 pixels apart takes the scale from 1 to 5.
\<close>

theorem pinch_move_zero_baseline_not_noop:
  "pinchStartDistRef zoom_init = 0 \<and> scale zoom_init = Fin 1 \<and>
   scale (handleTouchMove [touch_at 0 0, touch_at 100 0] zoom_init) = Fin 5"
  by (simp add: touch_at_def zoom_init_def Let_def Math_hypot_zero js_div_def)

text \<open>
  C4. With a baseline distance above zero and a finite baseline scale \<open>b\<close>, a two-point
  move publishes the scale \<open>min 5 (max 1 (b * (dist / baseline)))\<close>, and every state of
  a run of two-point moves has a finite scale between 1 and 5. A pinch from distance 100
  to 200 at baseline scale 1 gives the scale 2; going on to distance 600 gives 5.
\<close>

theorem pinch_move_scale_clamped:
  "(pinchStartScaleRef s = Fin b \<and> 0 < pinchStartDistRef s \<longrightarrow>
      scale (handleTouchMove [t0, t1] s) =
        Fin (min 5 (max 1 (b * (Math_hypot (clientX t0 - clientX t1) (clientY t0 - clientY t1)
                                  / pinchStartDistRef s)))) \<and>
      (\<forall>es. (\<forall>e \<in> set es. length e = 2) \<longrightarrow>
         (\<forall>s' \<in> set (moves es s). \<exists>r. scale s' = Fin r \<and> 1 \<le> r \<and> r \<le> 5))) \<and>
   scale (handleTouchMove [touch_at 0 0, touch_at 200 0] pinch_100) = Fin 2 \<and>
   scale (handleTouchMove [touch_at 0 0, touch_at 600 0]
            (handleTouchMove [touch_at 0 0, touch_at 200 0] pinch_100)) = Fin 5"
proof -
  have general: "pinchStartScaleRef s = Fin b \<and> 0 < pinchStartDistRef s \<longrightarrow>
      scale (handleTouchMove [t0, t1] s) =
        Fin (min 5 (max 1 (b * (Math_hypot (clientX t0 - clientX t1) (clientY t0 - clientY t1)
                                  / pinchStartDistRef s)))) \<and>
      (\<forall>es. (\<forall>e \<in> set es. length e = 2) \<longrightarrow>
         (\<forall>s' \<in> set (moves es s). \<exists>r. scale s' = Fin r \<and> 1 \<le> r \<and> r \<le> 5))"
    using pinch_move_finite pinch_moves_bounded by blast
  have to_200: "scale (handleTouchMove [touch_at 0 0, touch_at 200 0] pinch_100) = Fin 2"
    by (simp add: pinch_100_def touch_at_def zoom_init_def Let_def Math_hypot_zero js_div_def)
  have to_600: "scale (handleTouchMove [touch_at 0 0, touch_at 600 0]
            (handleTouchMove [touch_at 0 0, touch_at 200 0] pinch_100)) = Fin 5"
    by (simp add: pinch_100_def touch_at_def zoom_init_def Let_def Math_hypot_zero js_div_def)
  show ?thesis using general to_200 to_600 by blast
qed

theorem pinch_move_scale_clamped_witness:
  "pinchStartScaleRef pinch_100 = Fin 1 \<and> 0 < pinchStartDistRef pinch_100 \<and>
   length [touch_at 0 0, touch_at 150 0] = 2 \<and>
   scale (handleTouchMove [touch_at 0 0, touch_at 150 0] pinch_100) = Fin (3 / 2) \<and>
   set (moves [[touch_at 0 0, touch_at 150 0]] pinch_100) =
     {handleTouchMove [touch_at 0 0, touch_at 150 0] pinch_100}"
proof -
  have h: "pinchStartScaleRef pinch_100 = Fin 1 \<and> 0 < pinchStartDistRef pinch_100"
    by (simp add: pinch_100_refs)
  have "scale (handleTouchMove [touch_at 0 0, touch_at 150 0] pinch_100) =
          Fin (min 5 (max 1 (1 * (Math_hypot (clientX (touch_at 0 0) - clientX (touch_at 150 0))
                                     (clientY (touch_at 0 0) - clientY (touch_at 150 0))
                                   / pinchStartDistRef pinch_100))))"
    using pinch_move_scale_clamped [of pinch_100 1 "touch_at 0 0" "touch_at 150 0"] h by blast
  then have "scale (handleTouchMove [touch_at 0 0, touch_at 150 0] pinch_100) = Fin (3 / 2)"
    by (simp add: pinch_100_refs touch_at_def Math_hypot_zero)
  then show ?thesis using h by simp
qed

text \<open>
  C5. After \<open>handleTouchEnd\<close>, a scale equal to 1 comes with the pan offset \<open>(0, 0)\<close>, and
  a scale at or below 1 is exactly 1 with the pan offset \<open>(0, 0)\<close>. After a two-point
  move that publishes the scale 1, the pan offset is \<open>(0, 0)\<close>.
\<close>

theorem unit_scale_centres_pan:
  "(scale (handleTouchEnd s) = Fin 1 \<longrightarrow> position (handleTouchEnd s) = (0, 0)) \<and>
   (js_le (scale (handleTouchEnd s)) (Fin 1) \<longrightarrow>
      scale (handleTouchEnd s) = Fin 1 \<and> position (handleTouchEnd s) = (0, 0)) \<and>
   (scale (handleTouchMove [t0, t1] s) = Fin 1 \<longrightarrow>
      position (handleTouchMove [t0, t1] s) = (0, 0))"
  by (auto simp: handleTouchEnd_def resetZoom_def Let_def js_le_def)

theorem unit_scale_centres_pan_witness:
  "scale (handleTouchEnd (zoom_init\<lparr>scale := Fin (1 / 2), position := (30, 40)\<rparr>)) = Fin 1 \<and>
   js_le (scale (handleTouchEnd (zoom_init\<lparr>scale := Fin (1 / 2), position := (30, 40)\<rparr>))) (Fin 1) \<and>
   position (handleTouchEnd (zoom_init\<lparr>scale := Fin (1 / 2), position := (30, 40)\<rparr>)) = (0, 0) \<and>
   scale (handleTouchMove [touch_at 0 0, touch_at 50 0]
            (pinch_100\<lparr>scale := Fin 2, position := (30, 40)\<rparr>)) = Fin 1 \<and>
   position (handleTouchMove [touch_at 0 0, touch_at 50 0]
               (pinch_100\<lparr>scale := Fin 2, position := (30, 40)\<rparr>)) = (0, 0)"
proof -
  let ?s = "zoom_init\<lparr>scale := Fin (1 / 2), position := (30, 40)\<rparr>"
  let ?p = "pinch_100\<lparr>scale := Fin 2, position := (30, 40)\<rparr>"
  have e: "scale (handleTouchEnd ?s) = Fin 1"
    by (simp add: handleTouchEnd_def resetZoom_def zoom_init_def Let_def js_le_def)
  have m: "scale (handleTouchMove [touch_at 0 0, touch_at 50 0] ?p) = Fin 1"
    by (simp add: pinch_100_refs touch_at_def Let_def Math_hypot_zero js_div_def)
  have e0: "position (handleTouchEnd ?s) = (0, 0)"
    using unit_scale_centres_pan [of ?s "touch_at 0 0" "touch_at 50 0"] e by blast
  have m0: "position (handleTouchMove [touch_at 0 0, touch_at 50 0] ?p) = (0, 0)"
    using unit_scale_centres_pan [of ?p "touch_at 0 0" "touch_at 50 0"] m by blast
  show ?thesis
    using e e0 m m0 by (simp add: js_le_def)
qed

text \<open>
  C9. A tap at time \<open>now\<close> stores \<open>now\<close> as the time of the last tap, whatever else it
  does. Less than 300 ms after the last tap it toggles: a scale above 1 goes back to 1,
  any other scale becomes 2.5, the pan offset is \<open>(0, 0)\<close> in both cases. Otherwise scale
  and pan offset stay. So a tap that does not toggle, followed by a tap 250 ms later,
  toggles once; followed by a tap 350 ms later, it changes only the time stored.
\<close>

theorem double_tap_toggles:
  "lastTapRef (handleDoubleTap now s) = now \<and>
   (now - lastTapRef s < 300 \<and> js_gt (scale s) (Fin 1) \<longrightarrow>
      scale (handleDoubleTap now s) = Fin 1 \<and> position (handleDoubleTap now s) = (0, 0)) \<and>
   (now - lastTapRef s < 300 \<and> \<not> js_gt (scale s) (Fin 1) \<longrightarrow>
      scale (handleDoubleTap now s) = Fin (5 / 2) \<and> position (handleDoubleTap now s) = (0, 0)) \<and>
   (\<not> now - lastTapRef s < 300 \<longrightarrow>
      scale (handleDoubleTap now s) = scale s \<and> position (handleDoubleTap now s) = position s) \<and>
   (300 \<le> now - lastTapRef s \<longrightarrow>
      handleDoubleTap (now + 250) (handleDoubleTap now s) =
        (if js_gt (scale s) (Fin 1)
         then s\<lparr>scale := Fin 1, position := (0, 0), lastTapRef := now + 250\<rparr>
         else s\<lparr>scale := Fin (5 / 2), position := (0, 0), lastTapRef := now + 250\<rparr>) \<and>
      handleDoubleTap (now + 350) (handleDoubleTap now s) = s\<lparr>lastTapRef := now + 350\<rparr>)"
  by (auto simp: handleDoubleTap_def resetZoom_def Let_def DOUBLE_TAP_DELAY_def)

theorem double_tap_toggles_witness:
  "(300::int) \<le> 1000 - lastTapRef zoom_init \<and>
   handleDoubleTap 1250 (handleDoubleTap 1000 zoom_init) =
     zoom_init\<lparr>scale := Fin (5 / 2), position := (0, 0), lastTapRef := 1250\<rparr> \<and>
   handleDoubleTap 1350 (handleDoubleTap 1000 zoom_init) = zoom_init\<lparr>lastTapRef := 1350\<rparr> \<and>
   (1500::int) - lastTapRef (zoom_init\<lparr>scale := Fin (5 / 2), lastTapRef := 1250\<rparr>) < 300 \<and>
   js_gt (scale (zoom_init\<lparr>scale := Fin (5 / 2), lastTapRef := 1250\<rparr>)) (Fin 1) \<and>
   scale (handleDoubleTap 1500 (zoom_init\<lparr>scale := Fin (5 / 2), lastTapRef := 1250\<rparr>)) = Fin 1 \<and>
   (1100::int) - lastTapRef (zoom_init\<lparr>lastTapRef := 1000\<rparr>) < 300 \<and>
   \<not> js_gt (scale (zoom_init\<lparr>lastTapRef := 1000\<rparr>)) (Fin 1) \<and>
   scale (handleDoubleTap 1100 (zoom_init\<lparr>lastTapRef := 1000\<rparr>)) = Fin (5 / 2)"
proof -
  have far: "(300::int) \<le> 1000 - lastTapRef zoom_init"
    by (simp add: zoom_init_def)
  have not_zoomed: "\<not> js_gt (scale zoom_init) (Fin 1)"
    by (simp add: zoom_init_def js_gt_def)
  have two_taps:
    "handleDoubleTap 1250 (handleDoubleTap 1000 zoom_init) =
       zoom_init\<lparr>scale := Fin (5 / 2), position := (0, 0), lastTapRef := 1250\<rparr> \<and>
     handleDoubleTap 1350 (handleDoubleTap 1000 zoom_init) = zoom_init\<lparr>lastTapRef := 1350\<rparr>"
    using double_tap_toggles [of 1000 zoom_init] far not_zoomed by simp
  let ?z = "zoom_init\<lparr>scale := Fin (5 / 2), lastTapRef := 1250\<rparr>"
  have z: "(1500::int) - lastTapRef ?z < 300 \<and> js_gt (scale ?z) (Fin 1)"
    by (simp add: js_gt_def)
  have unzoom: "scale (handleDoubleTap 1500 ?z) = Fin 1"
    using double_tap_toggles [of 1500 ?z] z by simp
  let ?u = "zoom_init\<lparr>lastTapRef := 1000\<rparr>"
  have u: "(1100::int) - lastTapRef ?u < 300 \<and> \<not> js_gt (scale ?u) (Fin 1)"
    by (simp add: js_gt_def zoom_init_def)
  have zoomed: "scale (handleDoubleTap 1100 ?u) = Fin (5 / 2)"
    using double_tap_toggles [of 1100 ?u] u by simp
  show ?thesis using far two_taps z unzoom u zoomed by simp
qed

section \<open>The image pipeline\<close>

text \<open>
  C1. \<open>handleDeleteImage\<close> sends the removal of the blob at the record's storage path
  first. When the removal succeeds, the deletion of the row by the record's identifier is
  sent second, and nothing after it; when the removal fails, nothing more is sent. When
  both succeed, the images with the record's identifier are filtered out of the category
  with the given identifier, and no error is set. When either fails, the categories are
  as before and the error message is set.
\<close>

theorem remove_blob_then_row:
  "(storage_remove E (calls s) [storage_path r] = None \<longrightarrow>
      calls (handleDeleteImage E cid r s) =
        calls s @ [StorageRemove [storage_path r], ImagesDelete (image_id r)]) \<and>
   (\<forall>err. storage_remove E (calls s) [storage_path r] = Some err \<longrightarrow>
      calls (handleDeleteImage E cid r s) = calls s @ [StorageRemove [storage_path r]]) \<and>
   (\<exists>rest. calls (handleDeleteImage E cid r s) = calls s @ StorageRemove [storage_path r] # rest \<and>
           (rest = [] \<or> rest = [ImagesDelete (image_id r)])) \<and>
   (ImagesDelete (image_id r) \<in> set (drop (length (calls s)) (calls (handleDeleteImage E cid r s))) \<longrightarrow>
      storage_remove E (calls s) [storage_path r] = None) \<and>
   (storage_remove E (calls s) [storage_path r] = None \<and>
    images_delete E (calls s @ [StorageRemove [storage_path r]]) (image_id r) = None \<longrightarrow>
      categories (handleDeleteImage E cid r s) =
        map (\<lambda>cat. if cat_id cat = cid
                   then cat\<lparr>images := filter (\<lambda>img. image_id img \<noteq> image_id r) (images cat)\<rparr>
                   else cat) (categories s) \<and>
      error (handleDeleteImage E cid r s) = error s) \<and>
   (\<forall>err. storage_remove E (calls s) [storage_path r] = Some err \<or>
          (storage_remove E (calls s) [storage_path r] = None \<and>
           images_delete E (calls s @ [StorageRemove [storage_path r]]) (image_id r) = Some err) \<longrightarrow>
      categories (handleDeleteImage E cid r s) = categories s \<and>
      error (handleDeleteImage E cid r s) = Some (err_message err ''Error al eliminar imagen''))"
  by (auto simp: handleDeleteImage_def deleteImage_def send_def remove_image_def Let_def
      split: option.splits)

theorem remove_blob_then_row_witness:
  "storage_remove env_storage_down (calls campo_one) [storage_path (campo_row ''u'')] =
     Some (JsError ''storage down'') \<and>
   calls (handleDeleteImage env_storage_down ''campo'' (campo_row ''u'') campo_one) =
     calls campo_one @ [StorageRemove [''campo/u.webp'']] \<and>
   categories (handleDeleteImage env_storage_down ''campo'' (campo_row ''u'') campo_one) =
     categories campo_one \<and>
   error (handleDeleteImage env_storage_down ''campo'' (campo_row ''u'') campo_one) =
     Some ''storage down'' \<and>
   storage_remove env_ok (calls campo_one) [storage_path (campo_row ''u'')] = None \<and>
   images_delete env_ok (calls campo_one @ [StorageRemove [storage_path (campo_row ''u'')]])
     (image_id (campo_row ''u'')) = None \<and>
   calls (handleDeleteImage env_ok ''campo'' (campo_row ''u'') campo_one) =
     calls campo_one @ [StorageRemove [''campo/u.webp''], ImagesDelete ''campo/u.webp''] \<and>
   map images (categories (handleDeleteImage env_ok ''campo'' (campo_row ''u'') campo_one)) =
     [[], [], [], []]"
proof -
  have down: "storage_remove env_storage_down (calls campo_one) [storage_path (campo_row ''u'')] =
      Some (JsError ''storage down'')"
    by (simp add: env_storage_down_def)
  have failed:
    "calls (handleDeleteImage env_storage_down ''campo'' (campo_row ''u'') campo_one) =
       calls campo_one @ [StorageRemove [storage_path (campo_row ''u'')]] \<and>
     categories (handleDeleteImage env_storage_down ''campo'' (campo_row ''u'') campo_one) =
       categories campo_one \<and>
     error (handleDeleteImage env_storage_down ''campo'' (campo_row ''u'') campo_one) =
       Some (err_message (JsError ''storage down'') ''Error al eliminar imagen'')"
    using remove_blob_then_row [of env_storage_down campo_one "campo_row ''u''" "''campo''"] down
    by auto
  have up: "storage_remove env_ok (calls campo_one) [storage_path (campo_row ''u'')] = None \<and>
      images_delete env_ok (calls campo_one @ [StorageRemove [storage_path (campo_row ''u'')]])
        (image_id (campo_row ''u'')) = None"
    by (simp add: env_ok_def)
  have removed:
    "calls (handleDeleteImage env_ok ''campo'' (campo_row ''u'') campo_one) =
       calls campo_one @ [StorageRemove [storage_path (campo_row ''u'')],
                          ImagesDelete (image_id (campo_row ''u''))] \<and>
     categories (handleDeleteImage env_ok ''campo'' (campo_row ''u'') campo_one) =
        map (\<lambda>cat. if cat_id cat = ''campo''
                   then cat\<lparr>images := filter (\<lambda>img. image_id img \<noteq> image_id (campo_row ''u'')) (images cat)\<rparr>
                   else cat) (categories campo_one)"
    using remove_blob_then_row [of env_ok campo_one "campo_row ''u''" "''campo''"] up
    by auto
  have "map images (categories (handleDeleteImage env_ok ''campo'' (campo_row ''u'') campo_one)) =
     [[], [], [], []]"
    using removed
    by (simp add: campo_one_def campo_open_def app_init_def prepend_image_def CATEGORIES_def)
  then show ?thesis using down failed up removed by (simp add: err_message_def campo_row_def)
qed

text \<open>
  C2. Take a selection of files in which the files before an image file are handled
  without a throw, and the upload of that file succeeds with the record \<open>record\<close>. The
  upload itself leaves the categories as they are; the handler then puts \<open>record\<close> in
  front of the images of the category that is open and leaves every other category as it
  was, and goes on with the files after it from that state. A loop that ends without a
  throw has put exactly one record per image file in front of the images of the open
  category. From an empty \<open>campo\<close>, uploading A gives \<open>[A]\<close>, uploading B then gives
  \<open>[B, A]\<close>, and deleting A then gives \<open>[B]\<close>; selecting A and B together gives
  \<open>[B, A]\<close> as well.
\<close>

theorem upload_prepends_record:
  "(activeCategory s = Some active \<and> active \<noteq> [] \<and>
    upload_files E active pre (s\<lparr>isUploading := True\<rparr>) = (None, s1) \<and>
    startsWith (file_type file) ''image/'' \<and>
    uploadImage E active file s1 = (Inr record, s2) \<longrightarrow>
      categories s2 = categories s1 \<and>
      upload_files E active (pre @ file # post) (s\<lparr>isUploading := True\<rparr>) =
        upload_files E active post
          (s2\<lparr>categories :=
                map (\<lambda>cat. if cat_id cat = active then cat\<lparr>images := record # images cat\<rparr>
                           else cat) (categories s1)\<rparr>) \<and>
      categories (handleFileChange E (Some (pre @ [file])) s) =
        map (\<lambda>cat. if cat_id cat = active then cat\<lparr>images := record # images cat\<rparr> else cat)
          (categories s1) \<and>
      categories (handleFileChange E (Some (pre @ file # post)) s) =
        categories
          (snd (upload_files E active post
                  (s2\<lparr>categories :=
                        map (\<lambda>cat. if cat_id cat = active
                                   then cat\<lparr>images := record # images cat\<rparr> else cat)
                          (categories s1)\<rparr>)))) \<and>
   (\<forall>fs s'. upload_files E active fs s0 = (None, s') \<longrightarrow>
      (\<exists>recs. length recs = length (filter (\<lambda>f. startsWith (file_type f) ''image/'') fs) \<and>
              categories s' =
                map (\<lambda>cat. if cat_id cat = active then cat\<lparr>images := recs @ images cat\<rparr>
                           else cat) (categories s0))) \<and>
   map images (categories (handleFileChange env_ok (Some [image_file 800 600]) campo_open)) =
     [[campo_row ''u''], [], [], []] \<and>
   map images
     (categories
        (handleFileChange env_ok (Some [image_file 4000 2000])
           (handleFileChange env_ok (Some [image_file 800 600]) campo_open))) =
     [[campo_row ''uu'', campo_row ''u''], [], [], []] \<and>
   map images
     (categories
        (handleDeleteImage env_ok ''campo'' (campo_row ''u'')
           (handleFileChange env_ok (Some [image_file 4000 2000])
              (handleFileChange env_ok (Some [image_file 800 600]) campo_open)))) =
     [[campo_row ''uu''], [], [], []] \<and>
   map images
     (categories
        (handleFileChange env_ok (Some [image_file 800 600, image_file 4000 2000]) campo_open)) =
     [[campo_row ''uu'', campo_row ''u''], [], [], []]"
proof -
  let ?put = "\<lambda>cat. if cat_id cat = active then cat\<lparr>images := record # images cat\<rparr> else cat"
  have general:
    "activeCategory s = Some active \<and> active \<noteq> [] \<and>
     upload_files E active pre (s\<lparr>isUploading := True\<rparr>) = (None, s1) \<and>
     startsWith (file_type file) ''image/'' \<and>
     uploadImage E active file s1 = (Inr record, s2) \<longrightarrow>
       categories s2 = categories s1 \<and>
       upload_files E active (pre @ file # post) (s\<lparr>isUploading := True\<rparr>) =
         upload_files E active post (s2\<lparr>categories := map ?put (categories s1)\<rparr>) \<and>
       categories (handleFileChange E (Some (pre @ [file])) s) = map ?put (categories s1) \<and>
       categories (handleFileChange E (Some (pre @ file # post)) s) =
         categories (snd (upload_files E active post (s2\<lparr>categories := map ?put (categories s1)\<rparr>)))"
  proof
    assume a: "activeCategory s = Some active \<and> active \<noteq> [] \<and>
      upload_files E active pre (s\<lparr>isUploading := True\<rparr>) = (None, s1) \<and>
      startsWith (file_type file) ''image/'' \<and>
      uploadImage E active file s1 = (Inr record, s2)"
    then have c: "categories s2 = categories s1"
      using uploadImage_categories [of E active "file" s1 "Inr record" s2] by simp
    have step: "upload_files E active (pre @ file # rest) (s\<lparr>isUploading := True\<rparr>) =
        upload_files E active rest (s2\<lparr>categories := map ?put (categories s1)\<rparr>)" for rest
      using a c by (simp add: upload_files_append prepend_image_def)
    have h: "categories (handleFileChange E (Some fs) s) =
        categories (snd (upload_files E active fs (s\<lparr>isUploading := True\<rparr>)))" for fs
      using a handleFileChange_categories [of s active E fs] by simp
    show "categories s2 = categories s1 \<and>
       upload_files E active (pre @ file # post) (s\<lparr>isUploading := True\<rparr>) =
         upload_files E active post (s2\<lparr>categories := map ?put (categories s1)\<rparr>) \<and>
       categories (handleFileChange E (Some (pre @ [file])) s) = map ?put (categories s1) \<and>
       categories (handleFileChange E (Some (pre @ file # post)) s) =
         categories (snd (upload_files E active post (s2\<lparr>categories := map ?put (categories s1)\<rparr>)))"
      using c step [of post] step [of "[]"] h [of "pre @ [file]"] h [of "pre @ file # post"]
      by simp
  qed
  have count: "\<forall>fs s'. upload_files E active fs s0 = (None, s') \<longrightarrow>
      (\<exists>recs. length recs = length (filter (\<lambda>f. startsWith (file_type f) ''image/'') fs) \<and>
              categories s' =
                map (\<lambda>cat. if cat_id cat = active then cat\<lparr>images := recs @ images cat\<rparr>
                           else cat) (categories s0))"
    using upload_files_prepends by blast
  have delete_A:
    "map images
       (categories
          (handleDeleteImage env_ok ''campo'' (campo_row ''u'')
             (handleFileChange env_ok (Some [image_file 4000 2000]) campo_one))) =
     [[campo_row ''uu''], [], [], []]"
    by (simp add: handleFileChange_def handleDeleteImage_def deleteImage_def campo_one_def
        campo_open_def app_init_def image_file_def env_ok_def campo_row_def uploadImage_def
        compressImage_def startsWith_def Let_def canvas_800_600 canvas_4000_2000 send_def
        prepend_image_def remove_image_def CATEGORIES_def)
  have together:
    "map images
       (categories
          (handleFileChange env_ok (Some [image_file 800 600, image_file 4000 2000]) campo_open)) =
     [[campo_row ''uu'', campo_row ''u''], [], [], []]"
    by (simp add: handleFileChange_def campo_open_def app_init_def image_file_def env_ok_def
        campo_row_def uploadImage_def compressImage_def startsWith_def Let_def canvas_800_600
        canvas_4000_2000 send_def prepend_image_def CATEGORIES_def)
  have single:
    "map images (categories (handleFileChange env_ok (Some [image_file 800 600]) campo_open)) =
       [[campo_row ''u''], [], [], []] \<and>
     map images
       (categories
          (handleFileChange env_ok (Some [image_file 4000 2000])
             (handleFileChange env_ok (Some [image_file 800 600]) campo_open))) =
       [[campo_row ''uu'', campo_row ''u''], [], [], []] \<and>
     map images
       (categories
          (handleDeleteImage env_ok ''campo'' (campo_row ''u'')
             (handleFileChange env_ok (Some [image_file 4000 2000])
                (handleFileChange env_ok (Some [image_file 800 600]) campo_open)))) =
       [[campo_row ''uu''], [], [], []]"
    using delete_A images_after_uploads by (simp add: first_upload)
  show ?thesis using general count single together by blast
qed

theorem upload_prepends_record_witness:
  "activeCategory campo_open = Some ''campo'' \<and> ''campo'' \<noteq> [] \<and>
   upload_files env_ok ''campo'' [image_file 800 600] (campo_open\<lparr>isUploading := True\<rparr>) =
     (None, campo_one\<lparr>isUploading := True\<rparr>) \<and>
   startsWith (file_type (image_file 4000 2000)) ''image/'' \<and>
   fst (uploadImage env_ok ''campo'' (image_file 4000 2000) (campo_one\<lparr>isUploading := True\<rparr>)) =
     Inr (campo_row ''uu'') \<and>
   categories
     (handleFileChange env_ok (Some ([image_file 800 600] @ [image_file 4000 2000])) campo_open) =
     map (\<lambda>cat. if cat_id cat = ''campo'' then cat\<lparr>images := campo_row ''uu'' # images cat\<rparr>
                else cat)
       (categories campo_one) \<and>
   upload_files env_ok ''campo'' [] (campo_open\<lparr>isUploading := True\<rparr>) =
     (None, campo_open\<lparr>isUploading := True\<rparr>) \<and>
   startsWith (file_type (image_file 800 600)) ''image/'' \<and>
   fst (uploadImage env_ok ''campo'' (image_file 800 600) (campo_open\<lparr>isUploading := True\<rparr>)) =
     Inr (campo_row ''u'') \<and>
   categories (handleFileChange env_ok (Some ([] @ [image_file 800 600])) campo_open) =
     map (\<lambda>cat. if cat_id cat = ''campo'' then cat\<lparr>images := campo_row ''u'' # images cat\<rparr>
                else cat)
       (categories campo_open)"
proof -
  have act: "activeCategory campo_open = Some ''campo'' \<and> ''campo'' \<noteq> []"
    by (simp add: campo_open_def)
  have pre1: "upload_files env_ok ''campo'' [image_file 800 600] (campo_open\<lparr>isUploading := True\<rparr>) =
     (None, campo_one\<lparr>isUploading := True\<rparr>)"
    by (simp add: campo_one_def campo_open_def app_init_def image_file_def env_ok_def
        campo_row_def uploadImage_def compressImage_def startsWith_def Let_def canvas_800_600
        send_def)
  have img: "startsWith (file_type (image_file 4000 2000)) ''image/'' \<and>
      startsWith (file_type (image_file 800 600)) ''image/''"
    by (simp add: image_file_def startsWith_def)
  obtain t2 where up2:
    "uploadImage env_ok ''campo'' (image_file 4000 2000) (campo_one\<lparr>isUploading := True\<rparr>) =
       (Inr (campo_row ''uu''), t2)"
    by (simp add: campo_one_def campo_open_def app_init_def image_file_def env_ok_def
        campo_row_def uploadImage_def compressImage_def Let_def canvas_4000_2000 send_def)
  have two: "categories
     (handleFileChange env_ok (Some ([image_file 800 600] @ [image_file 4000 2000])) campo_open) =
     map (\<lambda>cat. if cat_id cat = ''campo'' then cat\<lparr>images := campo_row ''uu'' # images cat\<rparr>
                else cat)
       (categories (campo_one\<lparr>isUploading := True\<rparr>))"
    using upload_prepends_record [of campo_open "''campo''" env_ok "[image_file 800 600]"
        "campo_one\<lparr>isUploading := True\<rparr>" "image_file 4000 2000" "campo_row ''uu''" t2]
      act pre1 img up2
    by blast
  have pre0: "upload_files env_ok ''campo'' [] (campo_open\<lparr>isUploading := True\<rparr>) =
     (None, campo_open\<lparr>isUploading := True\<rparr>)"
    by simp
  obtain t1 where up1:
    "uploadImage env_ok ''campo'' (image_file 800 600) (campo_open\<lparr>isUploading := True\<rparr>) =
       (Inr (campo_row ''u''), t1)"
    by (simp add: campo_open_def app_init_def image_file_def env_ok_def
        campo_row_def uploadImage_def compressImage_def Let_def canvas_800_600 send_def)
  have one: "categories (handleFileChange env_ok (Some ([] @ [image_file 800 600])) campo_open) =
     map (\<lambda>cat. if cat_id cat = ''campo'' then cat\<lparr>images := campo_row ''u'' # images cat\<rparr>
                else cat)
       (categories (campo_open\<lparr>isUploading := True\<rparr>))"
    using upload_prepends_record [of campo_open "''campo''" env_ok "[]"
        "campo_open\<lparr>isUploading := True\<rparr>" "image_file 800 600" "campo_row ''u''" t1]
      act pre0 img up1
    by blast
  show ?thesis using act pre1 img up2 two pre0 up1 one by simp
qed

text \<open>
  C6, as the code has it. The \<open>try\<close> of \<open>handleFileChange\<close> encloses the whole loop.
  When the files before an image file have been handled without a throw and the
  compression of that file fails, the handler ends there: the state is the one reached
  before that file, with the error message set and the uploading flag cleared, whatever
  files come after it in the selection.
\<close>

theorem decode_failure_ends_batch:
  assumes "activeCategory s = Some active" and "active \<noteq> []"
    and "upload_files E active pre (s\<lparr>isUploading := True\<rparr>) = (None, s1)"
    and "startsWith (file_type file) ''image/''"
    and "compressImage E file = Inl err"
  shows "handleFileChange E (Some (pre @ file # post)) s =
           s1\<lparr>error := Some (err_message err ''Error al subir imagen''), isUploading := False\<rparr>"
  using assms
  by (simp add: handleFileChange_def upload_files_append uploadImage_compress_fails Let_def)

theorem decode_failure_ends_batch_witness:
  "activeCategory campo_open = Some ''campo'' \<and> ''campo'' \<noteq> [] \<and>
   upload_files env_ok ''campo'' [image_file 800 600] (campo_open\<lparr>isUploading := True\<rparr>) =
     (None, campo_one\<lparr>isUploading := True\<rparr>) \<and>
   startsWith (file_type broken_file) ''image/'' \<and>
   compressImage env_ok broken_file = Inl (JsError ''Failed to load image'') \<and>
   handleFileChange env_ok (Some ([image_file 800 600] @ broken_file # [image_file 4000 2000]))
       campo_open =
     campo_one\<lparr>error := Some ''Failed to load image''\<rparr>"
proof -
  have h1: "activeCategory campo_open = Some ''campo''" and h2: "''campo'' \<noteq> []"
    by (simp_all add: campo_open_def)
  have h3: "upload_files env_ok ''campo'' [image_file 800 600] (campo_open\<lparr>isUploading := True\<rparr>) =
     (None, campo_one\<lparr>isUploading := True\<rparr>)"
    by (simp add: campo_one_def campo_open_def app_init_def image_file_def env_ok_def
        campo_row_def uploadImage_def compressImage_def startsWith_def Let_def canvas_800_600
        send_def)
  have h4: "startsWith (file_type broken_file) ''image/''"
    by (simp add: broken_file_def startsWith_def)
  have h5: "compressImage env_ok broken_file = Inl (JsError ''Failed to load image'')"
    by (simp add: compressImage_def broken_file_def)
  have "handleFileChange env_ok (Some ([image_file 800 600] @ broken_file # [image_file 4000 2000]))
       campo_open =
     campo_one\<lparr>isUploading := True\<rparr>
       \<lparr>error := Some (err_message (JsError ''Failed to load image'') ''Error al subir imagen''),
        isUploading := False\<rparr>"
    using decode_failure_ends_batch [OF h1 h2 h3 h4 h5] .
  then have "handleFileChange env_ok (Some ([image_file 800 600] @ broken_file # [image_file 4000 2000]))
       campo_open = campo_one\<lparr>error := Some ''Failed to load image''\<rparr>"
    by (simp add: err_message_def campo_one_def campo_open_def app_init_def)
  then show ?thesis using h1 h2 h3 h4 h5 by simp
qed

text \<open>
  C6, as stated, fails. A selection of a file that cannot be decoded followed by a good
  image file sends no request and leaves the categories as they were, with the error
  message of the first file; the good file selected alone is uploaded.
\<close>

theorem decode_failure_blocks_later_file:
  "handleFileChange env_ok (Some [broken_file, image_file 800 600]) campo_open =
     campo_open\<lparr>error := Some ''Failed to load image''\<rparr> \<and>
   calls campo_open = [] \<and>
   map images (categories campo_open) = [[], [], [], []] \<and>
   map images (categories (handleFileChange env_ok (Some [image_file 800 600]) campo_open)) =
     [[campo_row ''u''], [], [], []]"
proof -
  have "handleFileChange env_ok (Some [broken_file, image_file 800 600]) campo_open =
     campo_open\<lparr>error := Some ''Failed to load image''\<rparr>"
    by (simp add: handleFileChange_def campo_open_def app_init_def broken_file_def
        uploadImage_def compressImage_def startsWith_def err_message_def Let_def)
  moreover have "calls campo_open = [] \<and> map images (categories campo_open) = [[], [], [], []]"
    by (simp add: campo_open_def app_init_def CATEGORIES_def)
  ultimately show ?thesis using images_after_uploads by (simp add: first_upload)
qed

text \<open>
  C7. A file whose declared type does not start with \<open>image/\<close> is passed over by the
  loop: the loop over a selection that contains it is the loop over the selection without
  it, from the same state. A selection of that file alone sends no request and changes
  neither the categories nor the error; the handler ends with the uploading flag cleared,
  and with the state it started from when the flag was clear.
\<close>

theorem non_image_file_skipped:
  assumes "\<not> startsWith (file_type file) ''image/''"
  shows "upload_files E active (pre @ file # post) s = upload_files E active (pre @ post) s \<and>
         upload_files E active [file] s = (None, s) \<and>
         calls (handleFileChange E (Some [file]) s) = calls s \<and>
         categories (handleFileChange E (Some [file]) s) = categories s \<and>
         error (handleFileChange E (Some [file]) s) = error s \<and>
         uuids (handleFileChange E (Some [file]) s) = uuids s \<and>
         (handleFileChange E (Some [file]) s = s \<or>
          handleFileChange E (Some [file]) s = s\<lparr>isUploading := False\<rparr>) \<and>
         (\<not> isUploading s \<longrightarrow> handleFileChange E (Some [file]) s = s)"
  using assms
  by (auto simp: upload_files_append handleFileChange_def Let_def split: prod.splits option.splits)

theorem non_image_file_skipped_witness:
  "\<not> startsWith (file_type pdf_file) ''image/'' \<and> \<not> isUploading campo_one \<and>
   handleFileChange env_ok (Some [pdf_file]) campo_one = campo_one \<and>
   upload_files env_ok ''campo'' ([image_file 800 600] @ pdf_file # []) campo_open =
     upload_files env_ok ''campo'' ([image_file 800 600] @ []) campo_open"
proof -
  have h: "\<not> startsWith (file_type pdf_file) ''image/''"
    by (simp add: pdf_file_def startsWith_def)
  have idle: "\<not> isUploading campo_one"
    by (simp add: campo_one_def campo_open_def app_init_def)
  show ?thesis
    using non_image_file_skipped [OF h, of env_ok "''campo''" "[image_file 800 600]" "[]" campo_open]
      non_image_file_skipped [OF h, of env_ok "''campo''" "[]" "[]" campo_one] h idle
    by blast
qed

text \<open>
  C8. For an image of \<open>W\<close> by \<open>H\<close> pixels the canvas, and with it the blob, keeps the
  size when neither side is above 1200. Otherwise the longer side becomes 1200 and the
  other side is \<open>Math.round\<close> of the double product of its length and the double
  quotient \<open>1200 /\<close> the longer side. With sides below \<open>2 ^ 32\<close> (\<open>img.width\<close> and
  \<open>img.height\<close> are unsigned 32-bit attributes) that side is within one half of the
  exact product, so it is an integer nearest to it, and the larger of the two new sides
  is 1200. An image of 4000 by 2000 gives a canvas of 1200 by 600.
\<close>

theorem compress_dimensions:
  "(max W H \<le> 1200 \<longrightarrow> canvas_size W H = (W, H)) \<and>
   (W < 2 ^ 32 \<and> H < 2 ^ 32 \<and> 1200 < max W H \<longrightarrow>
      max (fst (canvas_size W H)) (snd (canvas_size W H)) = 1200) \<and>
   (1200 < max W H \<and> H < W \<longrightarrow>
      fst (canvas_size W H) = 1200 \<and>
      snd (canvas_size W H) = nat (Math_round (dval (dbl_mul H (dbl_div 1200 W)))) \<and>
      (W < 2 ^ 32 \<longrightarrow>
         \<bar>real (snd (canvas_size W H)) - real H * (1200 / real W)\<bar> \<le> 1 / 2)) \<and>
   (1200 < max W H \<and> W \<le> H \<longrightarrow>
      snd (canvas_size W H) = 1200 \<and>
      fst (canvas_size W H) = nat (Math_round (dval (dbl_mul W (dbl_div 1200 H)))) \<and>
      (H < 2 ^ 32 \<longrightarrow>
         \<bar>real (fst (canvas_size W H)) - real W * (1200 / real H)\<bar> \<le> 1 / 2)) \<and>
   (decoded file = Some (W, H) \<longrightarrow>
      (toBlob E (fst (canvas_size W H)) (snd (canvas_size W H)) \<longrightarrow>
         (\<exists>blob. compressImage E file = Inr blob)) \<and>
      (\<forall>blob. compressImage E file = Inr blob \<longrightarrow>
         (blob_width blob, blob_height blob) = canvas_size W H)) \<and>
   canvas_size 4000 2000 = (1200, 600)"
proof -
  have small: "max W H \<le> 1200 \<longrightarrow> canvas_size W H = (W, H)"
    by (auto simp: canvas_size_def MAX_SIZE_def)
  have wide: "1200 < max W H \<and> H < W \<longrightarrow>
      fst (canvas_size W H) = 1200 \<and>
      snd (canvas_size W H) = nat (Math_round (dval (dbl_mul H (dbl_div 1200 W)))) \<and>
      (W < 2 ^ 32 \<longrightarrow>
         snd (canvas_size W H) \<le> 1200 \<and>
         \<bar>real (snd (canvas_size W H)) - real H * (1200 / real W)\<bar> \<le> 1 / 2)"
  proof
    assume a: "1200 < max W H \<and> H < W"
    then have c: "canvas_size W H = (1200, nat (Math_round (dval (dbl_mul H (dbl_div 1200 W)))))"
      using canvas_wide [of W H] by (auto simp: MAX_SIZE_def)
    from a have hw: "H \<le> W" "0 < W" by simp_all
    have "W < 2 ^ 32 \<longrightarrow>
         snd (canvas_size W H) \<le> 1200 \<and>
         \<bar>real (snd (canvas_size W H)) - real H * (1200 / real W)\<bar> \<le> 1 / 2"
    proof
      assume "W < 2 ^ 32"
      from scaled_side [OF hw this]
      show "snd (canvas_size W H) \<le> 1200 \<and>
         \<bar>real (snd (canvas_size W H)) - real H * (1200 / real W)\<bar> \<le> 1 / 2"
        by (simp add: c MAX_SIZE_def)
    qed
    then show "fst (canvas_size W H) = 1200 \<and>
      snd (canvas_size W H) = nat (Math_round (dval (dbl_mul H (dbl_div 1200 W)))) \<and>
      (W < 2 ^ 32 \<longrightarrow>
         snd (canvas_size W H) \<le> 1200 \<and>
         \<bar>real (snd (canvas_size W H)) - real H * (1200 / real W)\<bar> \<le> 1 / 2)"
      by (simp add: c)
  qed
  have tall: "1200 < max W H \<and> W \<le> H \<longrightarrow>
      snd (canvas_size W H) = 1200 \<and>
      fst (canvas_size W H) = nat (Math_round (dval (dbl_mul W (dbl_div 1200 H)))) \<and>
      (H < 2 ^ 32 \<longrightarrow>
         fst (canvas_size W H) \<le> 1200 \<and>
         \<bar>real (fst (canvas_size W H)) - real W * (1200 / real H)\<bar> \<le> 1 / 2)"
  proof
    assume a: "1200 < max W H \<and> W \<le> H"
    then have c: "canvas_size W H = (nat (Math_round (dval (dbl_mul W (dbl_div 1200 H)))), 1200)"
      using canvas_tall [of W H] by (auto simp: MAX_SIZE_def)
    from a have hw: "W \<le> H" "0 < H" by auto
    have "H < 2 ^ 32 \<longrightarrow>
         fst (canvas_size W H) \<le> 1200 \<and>
         \<bar>real (fst (canvas_size W H)) - real W * (1200 / real H)\<bar> \<le> 1 / 2"
    proof
      assume "H < 2 ^ 32"
      from scaled_side [OF hw this]
      show "fst (canvas_size W H) \<le> 1200 \<and>
         \<bar>real (fst (canvas_size W H)) - real W * (1200 / real H)\<bar> \<le> 1 / 2"
        by (simp add: c MAX_SIZE_def)
    qed
    then show "snd (canvas_size W H) = 1200 \<and>
      fst (canvas_size W H) = nat (Math_round (dval (dbl_mul W (dbl_div 1200 H)))) \<and>
      (H < 2 ^ 32 \<longrightarrow>
         fst (canvas_size W H) \<le> 1200 \<and>
         \<bar>real (fst (canvas_size W H)) - real W * (1200 / real H)\<bar> \<le> 1 / 2)"
      by (simp add: c)
  qed
  have large: "W < 2 ^ 32 \<and> H < 2 ^ 32 \<and> 1200 < max W H \<longrightarrow>
      max (fst (canvas_size W H)) (snd (canvas_size W H)) = 1200"
    using wide tall by (cases "H < W") auto
  have blob: "decoded file = Some (W, H) \<longrightarrow>
      (toBlob E (fst (canvas_size W H)) (snd (canvas_size W H)) \<longrightarrow>
         (\<exists>blob. compressImage E file = Inr blob)) \<and>
      (\<forall>blob. compressImage E file = Inr blob \<longrightarrow>
         (blob_width blob, blob_height blob) = canvas_size W H)"
    by (auto simp: compressImage_def Let_def split: prod.splits if_splits)
  show ?thesis using small large wide tall blob canvas_4000_2000 by blast
qed

theorem compress_dimensions_witness:
  "max (800::nat) 600 \<le> 1200 \<and> canvas_size 800 600 = (800, 600) \<and>
   (1760::nat) < 2 ^ 32 \<and> (11::nat) < 2 ^ 32 \<and> (1200::nat) < max 1760 11 \<and> (11::nat) < 1760 \<and>
   fst (canvas_size 1760 11) = 1200 \<and>
   max (fst (canvas_size 1760 11)) (snd (canvas_size 1760 11)) = 1200 \<and>
   \<bar>real (snd (canvas_size 1760 11)) - real 11 * (1200 / real 1760)\<bar> \<le> 1 / 2 \<and>
   (3000::nat) < 2 ^ 32 \<and> (1200::nat) < max 1500 3000 \<and> (1500::nat) \<le> 3000 \<and>
   snd (canvas_size 1500 3000) = 1200 \<and>
   \<bar>real (fst (canvas_size 1500 3000)) - real 1500 * (1200 / real 3000)\<bar> \<le> 1 / 2 \<and>
   decoded (image_file 4000 2000) = Some (4000, 2000) \<and>
   toBlob env_ok (fst (canvas_size 4000 2000)) (snd (canvas_size 4000 2000)) \<and>
   compressImage env_ok (image_file 4000 2000) =
     Inr \<lparr>blob_width = 1200, blob_height = 600, blob_type = ''image/webp'',
          blob_quality = QUALITY\<rparr>"
proof -
  have small: "canvas_size 800 600 = (800, 600)"
    using compress_dimensions [of 800 600 "image_file 800 600" env_ok] by simp
  have hw: "(1760::nat) < 2 ^ 32 \<and> (11::nat) < 2 ^ 32 \<and> (1200::nat) < max 1760 11 \<and>
      (11::nat) < 1760"
    by simp
  have wide: "fst (canvas_size 1760 11) = 1200 \<and>
      max (fst (canvas_size 1760 11)) (snd (canvas_size 1760 11)) = 1200 \<and>
      \<bar>real (snd (canvas_size 1760 11)) - real 11 * (1200 / real 1760)\<bar> \<le> 1 / 2"
    using compress_dimensions [of 1760 11 "image_file 1760 11" env_ok] hw by blast
  have ht: "(3000::nat) < 2 ^ 32 \<and> (1200::nat) < max 1500 3000 \<and> (1500::nat) \<le> 3000"
    by simp
  have tall: "snd (canvas_size 1500 3000) = 1200 \<and>
      \<bar>real (fst (canvas_size 1500 3000)) - real 1500 * (1200 / real 3000)\<bar> \<le> 1 / 2"
    using compress_dimensions [of 1500 3000 "image_file 1500 3000" env_ok] ht by blast
  have d: "decoded (image_file 4000 2000) = Some (4000, 2000)"
    by (simp add: image_file_def)
  have t: "toBlob env_ok (fst (canvas_size 4000 2000)) (snd (canvas_size 4000 2000))"
    by (simp add: env_ok_def)
  obtain blob where blob: "compressImage env_ok (image_file 4000 2000) = Inr blob"
    using compress_dimensions [of 4000 2000 "image_file 4000 2000" env_ok] d t by blast
  then have "(blob_width blob, blob_height blob) = canvas_size 4000 2000"
    using compress_dimensions [of 4000 2000 "image_file 4000 2000" env_ok] d by blast
  then have "compressImage env_ok (image_file 4000 2000) =
     Inr \<lparr>blob_width = 1200, blob_height = 600, blob_type = ''image/webp'',
          blob_quality = QUALITY\<rparr>"
    using blob
    by (auto simp: compressImage_def image_file_def canvas_4000_2000 Let_def
        split: prod.splits if_splits)
  moreover have "max (800::nat) 600 \<le> 1200" by simp
  ultimately show ?thesis using small hw wide ht tall d t by blast
qed

text \<open>
  C10. When the query of some category fails during the initial load, \<open>load\<close> leaves the
  categories as they were, so each image sequence of the initial board stays empty.
  Unless the load was cancelled, the error is set once, to the message of one of the
  failed queries, and the loading flag is cleared.
\<close>

theorem load_failure_keeps_categories_empty:
  assumes "\<exists>r \<in> set (fst (fetch_each E (map cat_id CATEGORIES) s)). isl r"
  shows "categories (load E order cancelled s) = categories s \<and>
         (categories s = CATEGORIES \<longrightarrow>
            (\<forall>c \<in> set (categories (load E order cancelled s)). images c = [])) \<and>
         (\<not> cancelled \<longrightarrow>
            (\<exists>err. Inl err \<in> set (fst (fetch_each E (map cat_id CATEGORIES) s)) \<and>
               error (load E order cancelled s) =
                 Some (err_message err ''Error al cargar datos'')) \<and>
            \<not> isLoading (load E order cancelled s))"
proof -
  obtain rs s1 where f: "fetch_each E (map cat_id CATEGORIES) s = (rs, s1)"
    by (cases "fetch_each E (map cat_id CATEGORIES) s")
  from assms f have "\<exists>r \<in> set rs. isl r" by simp
  from Promise_all_rejects [OF this, of order]
  obtain err where err: "Inl err \<in> set rs" "Promise_all order rs = Inl err" by blast
  have cats: "categories s1 = categories s" using fetch_each_state [OF f] by simp
  have same: "categories (load E order cancelled s) = categories s"
    by (simp add: load_def f err Let_def cats)
  have empty: "\<forall>c \<in> set CATEGORIES. images c = []"
    by (simp add: CATEGORIES_def)
  have msg: "\<not> cancelled \<longrightarrow>
            error (load E order cancelled s) = Some (err_message err ''Error al cargar datos'') \<and>
            \<not> isLoading (load E order cancelled s)"
    by (simp add: load_def f err Let_def)
  show ?thesis using same empty msg err(1) f by auto
qed

theorem load_failure_keeps_categories_empty_witness:
  "fst (fetch_each env_reuniones_down (map cat_id CATEGORIES) app_init) =
     [Inr [], Inr [], Inl (JsError ''network down''), Inr []] \<and>
   isl (Inl (JsError ''network down'') :: thrown + ImageRecord list) \<and>
   categories (load env_reuniones_down [3, 2, 1, 0] False app_init) = CATEGORIES \<and>
   map images (categories (load env_reuniones_down [3, 2, 1, 0] False app_init)) =
     [[], [], [], []] \<and>
   error (load env_reuniones_down [3, 2, 1, 0] False app_init) = Some ''network down'' \<and>
   \<not> isLoading (load env_reuniones_down [3, 2, 1, 0] False app_init)"
proof -
  have rs: "fst (fetch_each env_reuniones_down (map cat_id CATEGORIES) app_init) =
     [Inr [], Inr [], Inl (JsError ''network down''), Inr []]"
    by (simp add: env_reuniones_down_def env_ok_def CATEGORIES_def fetchImagesByCategory_def
        Let_def)
  then have h: "\<exists>r \<in> set (fst (fetch_each env_reuniones_down (map cat_id CATEGORIES) app_init)). isl r"
    by simp
  note w = load_failure_keeps_categories_empty [OF h, of "[3, 2, 1, 0]" False]
  have cats: "categories (load env_reuniones_down [3, 2, 1, 0] False app_init) = CATEGORIES"
    using w by (simp add: app_init_def)
  from w obtain err where
    err: "Inl err \<in> set (fst (fetch_each env_reuniones_down (map cat_id CATEGORIES) app_init))"
      "error (load env_reuniones_down [3, 2, 1, 0] False app_init) =
         Some (err_message err ''Error al cargar datos'')"
    by blast
  from err(1) have "err = JsError ''network down''" unfolding rs by simp
  with err(2) have e: "error (load env_reuniones_down [3, 2, 1, 0] False app_init) =
      Some ''network down''"
    by (simp add: err_message_def)
  have l: "\<not> isLoading (load env_reuniones_down [3, 2, 1, 0] False app_init)"
    using w by blast
  show ?thesis using rs cats e l by (simp add: CATEGORIES_def)
qed

end
